theory Spec2Isabelle
  imports Complex_Main
begin

section \<open>Scene-graph nodes\<close>

text \<open>
  The viewer (\<^verbatim>\<open>src/main.js\<close> and its near copy \<^verbatim>\<open>src/unnamed/part_000\<close>) works on
  scene-graph nodes of the rendering library. A node carries a local position and scale,
  a visibility flag, the mesh flags and the material the viewer writes, the bounding box
  of its geometry, and its children. Numbers are JavaScript doubles; they are modelled by
  \<^typ>\<open>real\<close>, so all arithmetic below is exact. Rotations are the identity in this model.
\<close>

datatype vector3 = Vector3 (vx: real) (vy: real) (vz: real)

definition vadd :: "vector3 \<Rightarrow> vector3 \<Rightarrow> vector3" where
  "vadd a b = Vector3 (vx a + vx b) (vy a + vy b) (vz a + vz b)"

definition vsub :: "vector3 \<Rightarrow> vector3 \<Rightarrow> vector3" where
  "vsub a b = Vector3 (vx a - vx b) (vy a - vy b) (vz a - vz b)"

definition vmul :: "vector3 \<Rightarrow> vector3 \<Rightarrow> vector3" where
  "vmul a b = Vector3 (vx a * vx b) (vy a * vy b) (vz a * vz b)"

definition vmin :: "vector3 \<Rightarrow> vector3 \<Rightarrow> vector3" where
  "vmin a b = Vector3 (min (vx a) (vx b)) (min (vy a) (vy b)) (min (vz a) (vz b))"

definition vmax :: "vector3 \<Rightarrow> vector3 \<Rightarrow> vector3" where
  "vmax a b = Vector3 (max (vx a) (vx b)) (max (vy a) (vy b)) (max (vz a) (vz b))"

definition vscalar :: "real \<Rightarrow> vector3" where
  "vscalar c = Vector3 c c c"

text \<open>An axis-aligned box; the empty box of the library is \<open>None\<close> of \<open>box3 option\<close>.\<close>

datatype box3 = Box3 (bmin: vector3) (bmax: vector3)

record material =
  needsUpdate :: bool
  roughness :: "real option"
  metalness :: "real option"

record object3d_fields =
  position :: vector3
  scale :: vector3
  visible :: bool
  isMesh :: bool
  castShadow :: bool
  receiveShadow :: bool
  material :: "material option"
  geometry :: "box3 option"

datatype object3d = Object3D (props: object3d_fields) (children: "object3d list")

definition map_fields :: "(object3d_fields \<Rightarrow> object3d_fields) \<Rightarrow> object3d \<Rightarrow> object3d" where
  "map_fields f obj = Object3D (f (props obj)) (children obj)"

subsection \<open>The bounding box of a node\<close>

text \<open>
  \<^verbatim>\<open>new THREE.Box3().setFromObject(model)\<close> is a call into the rendering library: it
  starts from the empty box and, for the node and every descendant, joins the geometry's
  box mapped by the node's world transform. With identity rotations the world transform
  of a node is an offset and a per-axis factor: a local point \<open>p\<close> lies at
  \<open>offset + factor * p\<close>, and a child composes its own position and scale onto its
  parent's. A loaded scene root has no parent, so its parent transform is offset 0,
  factor 1.
\<close>

definition applyTransform :: "vector3 \<Rightarrow> vector3 \<Rightarrow> box3 \<Rightarrow> box3" where
  "applyTransform off fac b =
     (let p = vadd off (vmul fac (bmin b)); q = vadd off (vmul fac (bmax b))
      in Box3 (vmin p q) (vmax p q))"

definition box_union :: "box3 option \<Rightarrow> box3 \<Rightarrow> box3 option" where
  "box_union acc b =
     (case acc of None \<Rightarrow> Some b
      | Some a \<Rightarrow> Some (Box3 (vmin (bmin a) (bmin b)) (vmax (bmax a) (bmax b))))"

fun expandByObject :: "vector3 \<Rightarrow> vector3 \<Rightarrow> object3d \<Rightarrow> box3 option \<Rightarrow> box3 option" where
  "expandByObject off fac (Object3D f cs) acc =
     (let off' = vadd off (vmul fac (position f));
          fac' = vmul fac (scale f);
          acc' = (case geometry f of None \<Rightarrow> acc
                  | Some g \<Rightarrow> box_union acc (applyTransform off' fac' g))
      in fold (expandByObject off' fac') cs acc')"

definition setFromObject :: "object3d \<Rightarrow> box3 option" where
  "setFromObject model = expandByObject (vscalar 0) (vscalar 1) model None"

text \<open>A box moved by a vector, to state how the bounding box follows a translation.\<close>

definition translateBox :: "vector3 \<Rightarrow> box3 \<Rightarrow> box3" where
  "translateBox d b = Box3 (vadd d (bmin b)) (vadd d (bmax b))"

text \<open>\<^verbatim>\<open>box.getCenter\<close>: the midpoint, and the origin for the empty box.\<close>

definition getCenter :: "box3 option \<Rightarrow> vector3" where
  "getCenter box =
     (case box of None \<Rightarrow> vscalar 0
      | Some b \<Rightarrow> vmul (vadd (bmin b) (bmax b)) (vscalar (1 / 2)))"

subsection \<open>prepareModel\<close>

text \<open>
  \<^verbatim>\<open>model.traverse(callback)\<close> runs the callback on the node and then on every
  descendant. The callback of \<^verbatim>\<open>prepareModel\<close> writes only the node's own fields.
\<close>

fun traverse :: "(object3d_fields \<Rightarrow> object3d_fields) \<Rightarrow> object3d \<Rightarrow> object3d" where
  "traverse cb (Object3D f cs) = Object3D (cb f) (map (traverse cb) cs)"

definition setupMaterial :: "material \<Rightarrow> material" where
  "setupMaterial m =
     (let m1 = m\<lparr>needsUpdate := True\<rparr>;
          m2 = (if roughness m1 \<noteq> None then m1\<lparr>roughness := Some (6 / 10)\<rparr> else m1);
          m3 = (if metalness m2 \<noteq> None then m2\<lparr>metalness := Some (1 / 10)\<rparr> else m2)
      in m3)"

definition setupChild :: "object3d_fields \<Rightarrow> object3d_fields" where
  "setupChild child =
     (if isMesh child then
        (let c1 = child\<lparr>castShadow := True, receiveShadow := True\<rparr>
         in case material c1 of None \<Rightarrow> c1
            | Some m \<Rightarrow> c1\<lparr>material := Some (setupMaterial m)\<rparr>)
      else child)"

text \<open>
  \<^verbatim>\<open>prepareModel(model, isCar = false)\<close>, the same text in both files, in its three
  commented steps. "Center the model": the centre of the bounding box is subtracted from
  the position. "Scale adjustment": the scale is overwritten with 1.2 (car) or 0.8.
  "Set up model materials": the traversal.
\<close>

definition centerModel :: "object3d \<Rightarrow> object3d" where
  "centerModel model =
     (let box = setFromObject model;
          center = getCenter box
      in map_fields (\<lambda>f. f\<lparr>position := vsub (position f) center\<rparr>) model)"

definition adjustScale :: "bool \<Rightarrow> object3d \<Rightarrow> object3d" where
  "adjustScale isCar model =
     (if isCar
      then map_fields (\<lambda>f. f\<lparr>scale := Vector3 (12 / 10) (12 / 10) (12 / 10)\<rparr>) model
      else map_fields (\<lambda>f. f\<lparr>scale := Vector3 (8 / 10) (8 / 10) (8 / 10)\<rparr>) model)"

definition prepareModel :: "object3d \<Rightarrow> bool \<Rightarrow> object3d" where
  "prepareModel model isCar = traverse setupChild (adjustScale isCar (centerModel model))"

section \<open>The viewer state\<close>

text \<open>
  The module-level state of both files: \<^verbatim>\<open>models\<close> (a dictionary from key to node),
  \<^verbatim>\<open>currentModel\<close>, the target of \<^verbatim>\<open>directionalLight\<close>, the children of \<^verbatim>\<open>scene\<close> and the
  progress element. JavaScript compares and mutates nodes by reference, so the nodes live
  in a store (\<open>objects\<close>) and a reference is an index into it; every node delivered by
  the loader is a new object and is stored at a new index. The loader's requests that
  have not completed yet are \<open>pending\<close>; \<open>requested\<close> logs every call of
  \<^verbatim>\<open>loader.load\<close> with its path.

  \<^verbatim>\<open>models\<close> is created as \<^verbatim>\<open>{}\<close>, so \<^verbatim>\<open>models[key]\<close> also finds what \<^verbatim>\<open>Object.prototype\<close>
  provides: its functions, \<^verbatim>\<open>Object.prototype\<close> itself under \<^verbatim>\<open>__proto__\<close>, and a property
  \<^verbatim>\<open>visible\<close> once the viewer has written one there. \<^verbatim>\<open>currentModel\<close> and the light target
  can therefore hold a value that is not a node: one of those functions,
  \<^verbatim>\<open>Object.prototype\<close>, or the boolean \<^verbatim>\<open>true\<close>. \<open>None\<close> is \<^verbatim>\<open>null\<close> for \<^verbatim>\<open>currentModel\<close> and the
  light's own default target for \<open>lightTarget\<close>. \<open>prototypeVisible\<close> is the property
  \<^verbatim>\<open>visible\<close> of \<^verbatim>\<open>Object.prototype\<close> (\<open>None\<close> while it does not exist), \<open>functionVisible\<close>
  the property \<^verbatim>\<open>visible\<close> written on the inherited functions.
\<close>

datatype load_req = CarLoad | OtherLoad string

datatype js_error = TypeError

datatype js_value = NodeRef nat | FunctionRef string | PrototypeRef | TrueValue

record viewer =
  objects :: "object3d list"
  models :: "string \<rightharpoonup> nat"
  currentModel :: "js_value option"
  lightTarget :: "js_value option"
  sceneChildren :: "nat list"
  pending :: "load_req list"
  requested :: "(load_req \<times> string) list"
  progressHidden :: bool
  progressError :: bool
  prototypeVisible :: "bool option"
  functionVisible :: "string \<rightharpoonup> bool"

text \<open>A handler either returns or throws; a throw keeps the mutations made before it.\<close>

datatype outcome = Returned viewer | Threw js_error viewer

fun state_of :: "outcome \<Rightarrow> viewer" where
  "state_of (Returned v) = v"
| "state_of (Threw e v) = v"

fun returned :: "outcome \<Rightarrow> bool" where
  "returned (Returned v) = True"
| "returned (Threw e v) = False"

text \<open>Sequencing: the statements after a throw do not run.\<close>

fun andThen :: "outcome \<Rightarrow> (viewer \<Rightarrow> outcome) \<Rightarrow> outcome" where
  "andThen (Returned v) f = f v"
| "andThen (Threw e v) f = Threw e v"

text \<open>\<^verbatim>\<open>array.forEach(callback)\<close>: a throw of the callback ends the loop.\<close>

fun forEach :: "('a \<Rightarrow> viewer \<Rightarrow> outcome) \<Rightarrow> 'a list \<Rightarrow> viewer \<Rightarrow> outcome" where
  "forEach f [] v = Returned v"
| "forEach f (x # xs) v = andThen (f x v) (forEach f xs)"

text \<open>\<^verbatim>\<open>node.visible = b\<close> on the node behind reference \<open>n\<close>.\<close>

definition setVisible :: "nat \<Rightarrow> bool \<Rightarrow> viewer \<Rightarrow> viewer" where
  "setVisible n b v =
     v\<lparr>objects := (objects v)[n := map_fields (\<lambda>f. f\<lparr>visible := b\<rparr>) (objects v ! n)]\<rparr>"

definition isVisible :: "viewer \<Rightarrow> nat \<Rightarrow> bool" where
  "isVisible v n = (n < length (objects v) \<and> visible (props (objects v ! n)))"

text \<open>
  \<^verbatim>\<open>value.visible = b\<close> for any value \<^verbatim>\<open>currentModel\<close> can hold. On a function and on
  \<^verbatim>\<open>Object.prototype\<close> the assignment creates or overwrites the property. Both files are
  modules and run in strict mode, where an assignment to a property of the primitive
  \<^verbatim>\<open>true\<close> throws a \<^verbatim>\<open>TypeError\<close>.
\<close>

fun assignVisible :: "js_value \<Rightarrow> bool \<Rightarrow> viewer \<Rightarrow> outcome" where
  "assignVisible (NodeRef n) b v = Returned (setVisible n b v)"
| "assignVisible (FunctionRef name) b v =
     Returned (v\<lparr>functionVisible := (functionVisible v)(name \<mapsto> b)\<rparr>)"
| "assignVisible PrototypeRef b v = Returned (v\<lparr>prototypeVisible := Some b\<rparr>)"
| "assignVisible TrueValue b v = Threw TypeError v"

text \<open>
  \<^verbatim>\<open>value.updateMatrixWorld()\<close>: a node has the method, and calling it changes nothing of
  this state; the other values have no such method, and the call throws.
\<close>

fun updateMatrixWorld :: "js_value \<Rightarrow> viewer \<Rightarrow> outcome" where
  "updateMatrixWorld (NodeRef n) v = Returned v"
| "updateMatrixWorld (FunctionRef name) v = Threw TypeError v"
| "updateMatrixWorld PrototypeRef v = Threw TypeError v"
| "updateMatrixWorld TrueValue v = Threw TypeError v"

text \<open>The names of the functions every object inherits from \<^verbatim>\<open>Object.prototype\<close>.\<close>

definition inheritedFunctions :: "string list" where
  "inheritedFunctions =
     [''constructor'', ''hasOwnProperty'', ''isPrototypeOf'', ''propertyIsEnumerable'',
      ''toLocaleString'', ''toString'', ''valueOf'', ''__defineGetter__'',
      ''__defineSetter__'', ''__lookupGetter__'', ''__lookupSetter__'']"

definition inheritedNames :: "string list" where
  "inheritedNames = inheritedFunctions @ [''__proto__'']"

text \<open>
  \<^verbatim>\<open>models[key]\<close> as the guard of \<^verbatim>\<open>switchModel\<close> sees it: \<open>None\<close> when the value is
  \<^verbatim>\<open>undefined\<close> or \<^verbatim>\<open>false\<close>. The viewer's own keys come first.
\<close>

definition modelsGet :: "viewer \<Rightarrow> string \<Rightarrow> js_value option" where
  "modelsGet v key =
     (case models v key of
        Some n \<Rightarrow> Some (NodeRef n)
      | None \<Rightarrow>
          if key \<in> set inheritedFunctions then Some (FunctionRef key)
          else if key = ''__proto__'' then Some PrototypeRef
          else if key = ''visible'' \<and> prototypeVisible v = Some True then Some TrueValue
          else None)"

subsection \<open>switchModel\<close>

text \<open>
  The same text in both files. The argument is the value of
  \<^verbatim>\<open>section.getAttribute('data-model')\<close>: \<open>None\<close> for \<^verbatim>\<open>null\<close>. The test
  \<^verbatim>\<open>modelKey && models[modelKey]\<close> fails for \<^verbatim>\<open>null\<close>, for the empty string and for a
  key under which \<^verbatim>\<open>models\<close> finds nothing. The function is its two \<^verbatim>\<open>if\<close> statements
  in sequence: \<open>hideCurrent\<close>, then \<open>showModel\<close>.
\<close>

definition hideCurrent :: "viewer \<Rightarrow> outcome" where
  "hideCurrent v =
     (case currentModel v of None \<Rightarrow> Returned v | Some c \<Rightarrow> assignVisible c False v)"

definition showModel :: "string option \<Rightarrow> viewer \<Rightarrow> outcome" where
  "showModel modelKey v =
     (case modelKey of
        None \<Rightarrow> Returned v
      | Some key \<Rightarrow>
          if key = [] then Returned v
          else (case modelsGet v key of
                  None \<Rightarrow> Returned v
                | Some m \<Rightarrow>
                    andThen (assignVisible m True (v\<lparr>currentModel := Some m\<rparr>))
                      (\<lambda>v2. updateMatrixWorld m (v2\<lparr>lightTarget := Some m\<rparr>))))"

definition switchModel :: "string option \<Rightarrow> viewer \<Rightarrow> outcome" where
  "switchModel modelKey v = andThen (hideCurrent v) (showModel modelKey)"

subsection \<open>handleScroll\<close>

text \<open>
  A section element of the page: \<^verbatim>\<open>offsetTop\<close> and \<^verbatim>\<open>offsetHeight\<close> are integers,
  \<^verbatim>\<open>data-model\<close> may be missing. \<^verbatim>\<open>window.scrollY\<close> is a double, \<^verbatim>\<open>window.innerHeight\<close> an
  integer.
\<close>

record page_section =
  offsetTop :: int
  offsetHeight :: int
  data_model :: "string option"

definition lowerBound :: "page_section \<Rightarrow> int \<Rightarrow> real" where
  "lowerBound s innerHeight = real_of_int (offsetTop s) - real_of_int innerHeight / 2"

definition upperBound :: "page_section \<Rightarrow> int \<Rightarrow> real" where
  "upperBound s innerHeight =
     real_of_int (offsetTop s) + real_of_int (offsetHeight s) - real_of_int innerHeight / 2"

text \<open>The condition of the \<^verbatim>\<open>if\<close> inside \<^verbatim>\<open>sections.forEach\<close>.\<close>

definition inRange :: "page_section \<Rightarrow> real \<Rightarrow> int \<Rightarrow> bool" where
  "inRange s scrollPosition innerHeight =
     (scrollPosition \<ge> real_of_int (offsetTop s) - real_of_int innerHeight / 2 \<and>
      scrollPosition < real_of_int (offsetTop s) + real_of_int (offsetHeight s)
                         - real_of_int innerHeight / 2)"

definition visitSection :: "real \<Rightarrow> int \<Rightarrow> page_section \<Rightarrow> viewer \<Rightarrow> outcome" where
  "visitSection scrollPosition innerHeight s v =
     (if inRange s scrollPosition innerHeight then switchModel (data_model s) v
      else Returned v)"

text \<open>
  The first branch of \<^verbatim>\<open>handleScroll\<close>, the same in both files. It is entered with a
  scroll position below the second section's lower bound. \<^verbatim>\<open>models.car\<close> is the viewer's
  own key or \<^verbatim>\<open>undefined\<close>; \<^verbatim>\<open>models.car.visible = true\<close> throws a \<^verbatim>\<open>TypeError\<close> when it is
  undefined, after the current model has been hidden.
\<close>

definition showCar :: "viewer \<Rightarrow> outcome" where
  "showCar v =
     (case currentModel v of
        None \<Rightarrow> Returned v
      | Some c \<Rightarrow>
          if Some c \<noteq> map_option NodeRef (models v ''car'') then
            andThen (assignVisible c False v)
              (\<lambda>v1. case models v1 ''car'' of
                       None \<Rightarrow> Threw TypeError v1
                     | Some car \<Rightarrow>
                         Returned ((setVisible car True v1)
                                     \<lparr>currentModel := Some (NodeRef car),
                                       lightTarget := Some (NodeRef car)\<rparr>))
          else Returned v)"

text \<open>
  \<^verbatim>\<open>handleScroll\<close> of \<^verbatim>\<open>main.js\<close>. \<^verbatim>\<open>sections[1].offsetTop\<close> throws a \<^verbatim>\<open>TypeError\<close> when the
  page has fewer than two sections. The loop skips index 0.
\<close>

definition handleScroll :: "page_section list \<Rightarrow> real \<Rightarrow> int \<Rightarrow> viewer \<Rightarrow> outcome" where
  "handleScroll sections scrollPosition innerHeight v =
     (if length sections < 2 then Threw TypeError v
      else if scrollPosition
                < real_of_int (offsetTop (sections ! 1)) - real_of_int innerHeight / 2
      then showCar v
      else forEach (\<lambda>(index, s) w. if index = 0 then Returned w
                                     else visitSection scrollPosition innerHeight s w)
             (enumerate 0 sections) v)"

text \<open>
  \<^verbatim>\<open>handleScroll\<close> of \<^verbatim>\<open>part_000\<close>. On the solutions page the first branch is switched
  off and \<^verbatim>\<open>sections[1]\<close> is never read; the loop visits every section.
\<close>

definition handleScroll_part000 ::
  "bool \<Rightarrow> page_section list \<Rightarrow> real \<Rightarrow> int \<Rightarrow> viewer \<Rightarrow> outcome" where
  "handleScroll_part000 isSolutionsPage sections scrollPosition innerHeight v =
     (if isSolutionsPage
      then forEach (visitSection scrollPosition innerHeight) sections v
      else if length sections < 2 then Threw TypeError v
      else if scrollPosition
                < real_of_int (offsetTop (sections ! 1)) - real_of_int innerHeight / 2
      then showCar v
      else forEach (visitSection scrollPosition innerHeight) sections v)"

section \<open>Loading\<close>

text \<open>
  \<^verbatim>\<open>loader.load(path, onLoad, onProgress, onError)\<close> returns at once; later the loader
  calls \<^verbatim>\<open>onLoad\<close> with a new scene or \<^verbatim>\<open>onError\<close>, once. A request is named by the
  callbacks it was given: those of \<^verbatim>\<open>loadCarModel\<close>, or those of \<^verbatim>\<open>loadOtherModels\<close> for one
  key. The progress callback only writes the text of the progress element and is left
  out.
\<close>

definition loader_load :: "load_req \<Rightarrow> string \<Rightarrow> viewer \<Rightarrow> viewer" where
  "loader_load r path v =
     v\<lparr>pending := pending v @ [r], requested := requested v @ [(r, path)]\<rparr>"

definition modelPaths :: "(string \<times> string) list" where
  "modelPaths =
     [(''livingroom'', ''public/cozy_living_room_baked_gltf/scene.gltf''),
      (''bedroom'', ''public/millennium_falcon/scene.gltf''),
      (''kitchen'', ''public/city_gltf/scene.gltf'')]"

text \<open>\<^verbatim>\<open>loadOtherModels\<close>: one \<^verbatim>\<open>loader.load\<close> per entry of \<^verbatim>\<open>modelPaths\<close>, with no test.\<close>

definition loadOtherModels :: "viewer \<Rightarrow> viewer" where
  "loadOtherModels v = fold (\<lambda>(key, path) w. loader_load (OtherLoad key) path w) modelPaths v"

definition carPath :: string where
  "carPath = ''public/vehicle_-_subaru_brz_rocket_bunny/scene.gltf''"

definition carPath_part000 :: string where
  "carPath_part000 = ''public/city_gltf/scene.gltf''"

definition loadCarModel :: "viewer \<Rightarrow> viewer" where
  "loadCarModel v = loader_load CarLoad carPath v"

definition loadCarModel_part000 :: "viewer \<Rightarrow> viewer" where
  "loadCarModel_part000 v = loader_load CarLoad carPath_part000 v"

text \<open>\<^verbatim>\<open>scene.add(model)\<close> for a node the loader has just created.\<close>

definition scene_add :: "object3d \<Rightarrow> viewer \<Rightarrow> viewer" where
  "scene_add model v =
     v\<lparr>objects := objects v @ [model],
       sceneChildren := sceneChildren v @ [length (objects v)]\<rparr>"

text \<open>The success and error callbacks of \<^verbatim>\<open>loadCarModel\<close>, the same in both files.\<close>

definition carLoaded :: "object3d \<Rightarrow> viewer \<Rightarrow> viewer" where
  "carLoaded gltf_scene v =
     (let model = prepareModel gltf_scene True;
          n = length (objects v);
          v1 = scene_add model v;
          v2 = v1\<lparr>currentModel := Some (NodeRef n)\<rparr>;
          v3 = v2\<lparr>models := (models v2)(''car'' \<mapsto> n)\<rparr>;
          v4 = v3\<lparr>progressHidden := True\<rparr>
      in loadOtherModels v4)"

definition carFailed :: "viewer \<Rightarrow> viewer" where
  "carFailed v = loadOtherModels (v\<lparr>progressError := True\<rparr>)"

text \<open>The success and error callbacks of \<^verbatim>\<open>loadOtherModels\<close> in \<^verbatim>\<open>main.js\<close>.\<close>

definition otherLoaded :: "string \<Rightarrow> object3d \<Rightarrow> viewer \<Rightarrow> viewer" where
  "otherLoaded key gltf_scene v =
     (let model = map_fields (\<lambda>f. f\<lparr>visible := False\<rparr>) (prepareModel gltf_scene False);
          n = length (objects v);
          v1 = scene_add model v
      in v1\<lparr>models := (models v1)(key \<mapsto> n)\<rparr>)"

definition otherFailed :: "string \<Rightarrow> viewer \<Rightarrow> viewer" where
  "otherFailed key v = v"

text \<open>
  The success callback of \<^verbatim>\<open>loadOtherModels\<close> in \<^verbatim>\<open>part_000\<close>: on the solutions page the
  living room is shown when nothing is current.
\<close>

definition otherLoaded_part000 :: "bool \<Rightarrow> string \<Rightarrow> object3d \<Rightarrow> viewer \<Rightarrow> viewer" where
  "otherLoaded_part000 isSolutionsPage key gltf_scene v =
     (let n = length (objects v);
          v1 = otherLoaded key gltf_scene v
      in if isSolutionsPage \<and> key = ''livingroom'' \<and> currentModel v1 = None
         then setVisible n True (v1\<lparr>currentModel := Some (NodeRef n)\<rparr>)
         else v1)"

section \<open>Events\<close>

text \<open>
  Execution is single-threaded: the state changes only in whole callbacks. An event is
  the completion of a pending request, a scroll event with the layout read at that
  moment, or a direct call of \<^verbatim>\<open>switchModel\<close>. A completion of a request that is not
  pending does not occur; the step leaves the state as it is. An exception thrown by a
  handler ends that handler only.
\<close>

datatype event =
    LoadSuccess load_req object3d
  | LoadError load_req
  | Scroll "page_section list" real int
  | SwitchCall "string option"

definition emptyViewer :: viewer where
  "emptyViewer =
     \<lparr>objects = [], models = Map.empty, currentModel = None, lightTarget = None,
      sceneChildren = [], pending = [], requested = [],
      progressHidden = False, progressError = False,
      prototypeVisible = None, functionVisible = Map.empty\<rparr>"

definition complete :: "load_req \<Rightarrow> viewer \<Rightarrow> viewer" where
  "complete r v = v\<lparr>pending := remove1 r (pending v)\<rparr>"

subsection \<open>main.js\<close>

definition init :: viewer where
  "init = loadCarModel emptyViewer"

fun step :: "event \<Rightarrow> viewer \<Rightarrow> outcome" where
  "step (LoadSuccess r g) v =
     (if r \<in> set (pending v)
      then (case r of CarLoad \<Rightarrow> Returned (carLoaded g (complete r v))
            | OtherLoad key \<Rightarrow> Returned (otherLoaded key g (complete r v)))
      else Returned v)"
| "step (LoadError r) v =
     (if r \<in> set (pending v)
      then (case r of CarLoad \<Rightarrow> Returned (carFailed (complete r v))
            | OtherLoad key \<Rightarrow> Returned (otherFailed key (complete r v)))
      else Returned v)"
| "step (Scroll sections scrollPosition innerHeight) v =
     handleScroll sections scrollPosition innerHeight v"
| "step (SwitchCall modelKey) v = switchModel modelKey v"

fun trace :: "viewer \<Rightarrow> event list \<Rightarrow> outcome list" where
  "trace v [] = []"
| "trace v (e # es) = step e v # trace (state_of (step e v)) es"

definition exec :: "viewer \<Rightarrow> event list \<Rightarrow> viewer" where
  "exec v es = foldl (\<lambda>w e. state_of (step e w)) v es"

subsection \<open>part_000\<close>

definition init_part000 :: "bool \<Rightarrow> viewer" where
  "init_part000 isSolutionsPage =
     (if \<not> isSolutionsPage then loadCarModel_part000 emptyViewer
      else (loadOtherModels emptyViewer)\<lparr>progressHidden := True\<rparr>)"

fun step_part000 :: "bool \<Rightarrow> event \<Rightarrow> viewer \<Rightarrow> outcome" where
  "step_part000 sol (LoadSuccess r g) v =
     (if r \<in> set (pending v)
      then (case r of CarLoad \<Rightarrow> Returned (carLoaded g (complete r v))
            | OtherLoad key \<Rightarrow> Returned (otherLoaded_part000 sol key g (complete r v)))
      else Returned v)"
| "step_part000 sol (LoadError r) v =
     (if r \<in> set (pending v)
      then (case r of CarLoad \<Rightarrow> Returned (carFailed (complete r v))
            | OtherLoad key \<Rightarrow> Returned (otherFailed key (complete r v)))
      else Returned v)"
| "step_part000 sol (Scroll sections scrollPosition innerHeight) v =
     handleScroll_part000 sol sections scrollPosition innerHeight v"
| "step_part000 sol (SwitchCall modelKey) v = switchModel modelKey v"

fun trace_part000 :: "bool \<Rightarrow> viewer \<Rightarrow> event list \<Rightarrow> outcome list" where
  "trace_part000 sol v [] = []"
| "trace_part000 sol v (e # es) =
     step_part000 sol e v # trace_part000 sol (state_of (step_part000 sol e v)) es"

definition exec_part000 :: "bool \<Rightarrow> viewer \<Rightarrow> event list \<Rightarrow> viewer" where
  "exec_part000 sol v es = foldl (\<lambda>w e. state_of (step_part000 sol e w)) v es"

section \<open>Invariants of the runs\<close>

text \<open>
  The registry part: every registered reference points into the store, two keys never
  share a node, a current node is registered, only the current node can be visible,
  and a loaded car implies that something is current.
\<close>

definition reg_ok :: "viewer \<Rightarrow> bool" where
  "reg_ok v \<longleftrightarrow>
     (\<forall>k n. models v k = Some n \<longrightarrow> n < length (objects v)) \<and>
     (\<forall>k k' n. models v k = Some n \<longrightarrow> models v k' = Some n \<longrightarrow> k = k') \<and>
     (\<forall>n. currentModel v = Some (NodeRef n) \<longrightarrow> (\<exists>k. models v k = Some n)) \<and>
     (\<forall>n. isVisible v n \<longrightarrow> currentModel v = Some (NodeRef n)) \<and>
     (\<forall>n. models v ''car'' = Some n \<longrightarrow> currentModel v \<noteq> None)"

text \<open>
  The loading part: no request is pending or was made twice, only configured keys are
  requested, a pending key is not registered yet, and while the car is pending no node
  exists.
\<close>

definition load_ok :: "viewer \<Rightarrow> bool" where
  "load_ok v \<longleftrightarrow>
     distinct (pending v) \<and>
     distinct (map fst (requested v)) \<and>
     set (pending v) \<subseteq> fst ` set (requested v) \<and>
     (\<forall>k. OtherLoad k \<in> fst ` set (requested v) \<longrightarrow> k \<in> fst ` set modelPaths) \<and>
     (\<forall>k. OtherLoad k \<in> set (pending v) \<longrightarrow> models v k = None) \<and>
     (CarLoad \<in> set (pending v) \<longrightarrow>
        map fst (requested v) = [CarLoad] \<and> objects v = [] \<and> models v = Map.empty)"

definition viewer_inv :: "viewer \<Rightarrow> bool" where
  "viewer_inv v \<longleftrightarrow> reg_ok v \<and> load_ok v"

text \<open>A key whose load is over and that is not registered: it stays so.\<close>

definition settled :: "string \<Rightarrow> viewer \<Rightarrow> bool" where
  "settled k v \<longleftrightarrow>
     CarLoad \<notin> set (pending v) \<and> OtherLoad k \<notin> set (pending v) \<and> models v k = None"

text \<open>
  A session in which every load fails consists of load failures and scroll events;
  \<open>scrolledPages\<close> lists the pages its scroll events read.
\<close>

fun failureOrScroll :: "event \<Rightarrow> bool" where
  "failureOrScroll (LoadError r) = True"
| "failureOrScroll (Scroll sections scrollPosition innerHeight) = True"
| "failureOrScroll (LoadSuccess r g) = False"
| "failureOrScroll (SwitchCall modelKey) = False"

fun scrolledPages :: "event list \<Rightarrow> page_section list list" where
  "scrolledPages [] = []"
| "scrolledPages (Scroll sections scrollPosition innerHeight # es) =
     sections # scrolledPages es"
| "scrolledPages (LoadSuccess r g # es) = scrolledPages es"
| "scrolledPages (LoadError r # es) = scrolledPages es"
| "scrolledPages (SwitchCall modelKey # es) = scrolledPages es"

text \<open>A page none of whose sections names something \<^verbatim>\<open>models\<close> inherits.\<close>

definition ownKeysOnly :: "page_section list \<Rightarrow> bool" where
  "ownKeysOnly sections =
     list_all (\<lambda>s. case data_model s of None \<Rightarrow> True
                    | Some key \<Rightarrow> key \<notin> set inheritedNames) sections"

text \<open>The state while nothing is loaded, nothing is current and no inherited flag is set.\<close>

definition idle :: "viewer \<Rightarrow> bool" where
  "idle v \<longleftrightarrow>
     objects v = [] \<and> models v = Map.empty \<and> currentModel v = None \<and>
     prototypeVisible v = None"

section \<open>Sample inputs\<close>

definition sampleMesh :: object3d where
  "sampleMesh =
     Object3D \<lparr>position = Vector3 0 0 0, scale = Vector3 1 1 1, visible = True,
               isMesh = True, castShadow = False, receiveShadow = False,
               material = None,
               geometry = Some (Box3 (Vector3 0 0 0) (Vector3 2 2 2))\<rparr> []"

text \<open>A scene as a loader delivers it: a group with one mesh below it.\<close>

definition sampleScene :: object3d where
  "sampleScene =
     Object3D \<lparr>position = Vector3 0 0 0, scale = Vector3 1 1 1, visible = True,
               isMesh = False, castShadow = False, receiveShadow = False,
               material = None, geometry = None\<rparr> [sampleMesh]"

text \<open>A page of two sections stacked one below the other.\<close>

definition samplePage :: "page_section list" where
  "samplePage =
     [\<lparr>offsetTop = 0, offsetHeight = 1000, data_model = Some ''car''\<rparr>,
      \<lparr>offsetTop = 1000, offsetHeight = 1000, data_model = Some ''bedroom''\<rparr>]"



text \<open>A page whose second section starts inside the first.\<close>

definition overlapPage :: "page_section list" where
  "overlapPage =
     [\<lparr>offsetTop = 0, offsetHeight = 1000, data_model = Some ''livingroom''\<rparr>,
      \<lparr>offsetTop = 500, offsetHeight = 500, data_model = Some ''bedroom''\<rparr>]"

text \<open>Pages whose sections name what \<^verbatim>\<open>models\<close> inherits.\<close>

definition constructorPage :: "page_section list" where
  "constructorPage =
     [\<lparr>offsetTop = 0, offsetHeight = 1000, data_model = Some ''car''\<rparr>,
      \<lparr>offsetTop = 1000, offsetHeight = 1000, data_model = Some ''constructor''\<rparr>]"


text \<open>The car and the living room are loaded, the car is current and visible.\<close>

definition carAndLivingroom :: viewer where
  "carAndLivingroom =
     exec init [LoadSuccess CarLoad sampleMesh, LoadSuccess (OtherLoad ''livingroom'') sampleMesh]"

definition carAndLivingroom_part000 :: viewer where
  "carAndLivingroom_part000 =
     exec_part000 False (init_part000 False)
       [LoadSuccess CarLoad sampleMesh, LoadSuccess (OtherLoad ''livingroom'') sampleMesh]"

text \<open>Every load fails, then the page is scrolled down and back up.\<close>

definition allLoadsFail :: "event list" where
  "allLoadsFail =
     [LoadError CarLoad, LoadError (OtherLoad ''bedroom''),
      LoadError (OtherLoad ''livingroom''), LoadError (OtherLoad ''kitchen''),
      Scroll samplePage 1200 800, Scroll samplePage 0 800]"


section \<open>Basic facts\<close>

lemma setVisible_simps [simp]:
  "models (setVisible n b v) = models v"
  "currentModel (setVisible n b v) = currentModel v"
  "lightTarget (setVisible n b v) = lightTarget v"
  "sceneChildren (setVisible n b v) = sceneChildren v"
  "pending (setVisible n b v) = pending v"
  "requested (setVisible n b v) = requested v"
  "progressHidden (setVisible n b v) = progressHidden v"
  "progressError (setVisible n b v) = progressError v"
  "prototypeVisible (setVisible n b v) = prototypeVisible v"
  "functionVisible (setVisible n b v) = functionVisible v"
  "length (objects (setVisible n b v)) = length (objects v)"
  by (simp_all add: setVisible_def)

lemma isVisible_setVisible [simp]:
  "isVisible (setVisible n b v) m = (if m = n then n < length (objects v) \<and> b else isVisible v m)"
  by (auto simp: isVisible_def setVisible_def map_fields_def)

lemma isVisible_update_simps [simp]:
  "isVisible (v\<lparr>currentModel := c\<rparr>) m = isVisible v m"
  "isVisible (v\<lparr>lightTarget := t\<rparr>) m = isVisible v m"
  "isVisible (v\<lparr>models := ms\<rparr>) m = isVisible v m"
  "isVisible (v\<lparr>pending := ps\<rparr>) m = isVisible v m"
  "isVisible (v\<lparr>requested := rs\<rparr>) m = isVisible v m"
  "isVisible (v\<lparr>progressHidden := ph\<rparr>) m = isVisible v m"
  "isVisible (v\<lparr>progressError := pe\<rparr>) m = isVisible v m"
  "isVisible (v\<lparr>prototypeVisible := pv\<rparr>) m = isVisible v m"
  "isVisible (v\<lparr>functionVisible := fv\<rparr>) m = isVisible v m"
  by (simp_all add: isVisible_def)

lemma assignVisible_simps [simp]:
  "models (state_of (assignVisible c b v)) = models v"
  "currentModel (state_of (assignVisible c b v)) = currentModel v"
  "lightTarget (state_of (assignVisible c b v)) = lightTarget v"
  "pending (state_of (assignVisible c b v)) = pending v"
  "requested (state_of (assignVisible c b v)) = requested v"
  "length (objects (state_of (assignVisible c b v))) = length (objects v)"
  by (cases c; simp)+

lemma isVisible_assignVisible [simp]:
  "isVisible (state_of (assignVisible c b v)) m =
     (if c = NodeRef m then m < length (objects v) \<and> b else isVisible v m)"
  by (cases c) auto

lemma returned_assignVisible [simp]:
  "returned (assignVisible c b v) = (c \<noteq> TrueValue)"
  by (cases c) simp_all

lemma andThen_state:
  "andThen r f = (if returned r then f (state_of r) else r)"
  by (cases r) simp_all

lemma state_of_andThen:
  "state_of (andThen r f) = (if returned r then state_of (f (state_of r)) else state_of r)"
  by (cases r) simp_all

lemma returned_andThen:
  "returned (andThen r f) = (returned r \<and> returned (f (state_of r)))"
  by (cases r) simp_all

lemma hideCurrent_simps [simp]:
  "models (state_of (hideCurrent v)) = models v"
  "currentModel (state_of (hideCurrent v)) = currentModel v"
  "lightTarget (state_of (hideCurrent v)) = lightTarget v"
  "pending (state_of (hideCurrent v)) = pending v"
  "requested (state_of (hideCurrent v)) = requested v"
  "length (objects (state_of (hideCurrent v))) = length (objects v)"
  by (simp_all add: hideCurrent_def split: option.splits)

lemma isVisible_hideCurrent [simp]:
  "isVisible (state_of (hideCurrent v)) m =
     (isVisible v m \<and> currentModel v \<noteq> Some (NodeRef m))"
  by (auto simp: hideCurrent_def split: option.splits)

lemma returned_hideCurrent [simp]:
  "returned (hideCurrent v) = (currentModel v \<noteq> Some TrueValue)"
  by (auto simp: hideCurrent_def split: option.splits)

lemma reg_ok_hideCurrent: "reg_ok v \<Longrightarrow> reg_ok (state_of (hideCurrent v))"
  unfolding reg_ok_def by simp

lemma hidden_hideCurrent: "reg_ok v \<Longrightarrow> \<not> isVisible (state_of (hideCurrent v)) m"
  unfolding reg_ok_def by auto

lemma state_of_updateMatrixWorld [simp]: "state_of (updateMatrixWorld m v) = v"
  by (cases m) simp_all

lemma returned_updateMatrixWorld [simp]:
  "returned (updateMatrixWorld m v) = (\<exists>n. m = NodeRef n)"
  by (cases m) simp_all

lemma modelsGet_NodeRef: "modelsGet v key = Some (NodeRef n) \<longleftrightarrow> models v key = Some n"
  by (auto simp: modelsGet_def split: option.splits)

lemma showModel_simps [simp]:
  "models (state_of (showModel key v)) = models v"
  "pending (state_of (showModel key v)) = pending v"
  "requested (state_of (showModel key v)) = requested v"
  "length (objects (state_of (showModel key v))) = length (objects v)"
  by (auto simp: showModel_def state_of_andThen split: option.splits js_value.splits)

lemma reg_ok_showModel:
  assumes "reg_ok v" "\<forall>m. \<not> isVisible v m"
  shows "reg_ok (state_of (showModel key v))"
proof (cases "\<exists>k m. key = Some k \<and> k \<noteq> [] \<and> modelsGet v k = Some m")
  case False
  then have "showModel key v = Returned v"
    by (auto simp: showModel_def split: option.splits)
  with assms show ?thesis by simp
next
  case True
  then obtain k m where k: "key = Some k" "k \<noteq> []" "modelsGet v k = Some m" by blast
  define w where "w = state_of (showModel key v)"
  have f: "models w = models v" "length (objects w) = length (objects v)"
    by (simp_all add: w_def)
  have c: "currentModel w = Some m"
    using k by (cases m) (simp_all add: w_def showModel_def)
  have vis: "isVisible w n \<longleftrightarrow> m = NodeRef n \<and> n < length (objects v)" for n
    using k assms(2) by (cases m) (auto simp: w_def showModel_def)
  have reg: "\<exists>k'. models v k' = Some n" if "m = NodeRef n" for n
    using k that by (auto simp: modelsGet_NodeRef)
  show ?thesis
    using assms(1) reg unfolding reg_ok_def w_def [symmetric] f c vis by auto
qed

lemma switchModel_simps [simp]:
  "models (state_of (switchModel key v)) = models v"
  "pending (state_of (switchModel key v)) = pending v"
  "requested (state_of (switchModel key v)) = requested v"
  "length (objects (state_of (switchModel key v))) = length (objects v)"
  by (simp_all add: switchModel_def state_of_andThen)

lemma reg_ok_switchModel: "reg_ok v \<Longrightarrow> reg_ok (state_of (switchModel key v))"
proof -
  assume r: "reg_ok v"
  then have "reg_ok (state_of (hideCurrent v))" by (rule reg_ok_hideCurrent)
  moreover have "\<forall>m. \<not> isVisible (state_of (hideCurrent v)) m"
    using hidden_hideCurrent [OF r] by blast
  ultimately have "reg_ok (state_of (showModel key (state_of (hideCurrent v))))"
    by (rule reg_ok_showModel)
  with \<open>reg_ok (state_of (hideCurrent v))\<close> show ?thesis
    by (simp add: switchModel_def state_of_andThen)
qed

lemma showCar_simps [simp]:
  "models (state_of (showCar v)) = models v"
  "pending (state_of (showCar v)) = pending v"
  "requested (state_of (showCar v)) = requested v"
  "length (objects (state_of (showCar v))) = length (objects v)"
  by (auto simp: showCar_def state_of_andThen split: option.splits)

lemma reg_ok_showCar: "reg_ok v \<Longrightarrow> reg_ok (state_of (showCar v))"
proof (cases "currentModel v")
  case None
  assume "reg_ok v" with None show ?thesis by (simp add: showCar_def)
next
  case (Some c)
  assume r: "reg_ok v"
  show ?thesis
  proof (cases "Some c \<noteq> map_option NodeRef (models v ''car'') \<and> c \<noteq> TrueValue")
    case False
    then have "state_of (showCar v) = v"
      using Some by (auto simp: showCar_def state_of_andThen)
    with r show ?thesis by simp
  next
    case True
    define v1 where "v1 = state_of (assignVisible c False v)"
    have h: "\<not> isVisible v1 m" for m
      using r Some unfolding reg_ok_def v1_def by auto
    have r1: "reg_ok v1"
      using r unfolding reg_ok_def v1_def by auto
    show ?thesis
    proof (cases "models v ''car''")
      case None
      then have "state_of (showCar v) = v1"
        using Some True by (simp add: showCar_def state_of_andThen v1_def)
      with r1 show ?thesis by simp
    next
      case (Some car)
      then have e: "state_of (showCar v) =
          (setVisible car True v1)\<lparr>currentModel := Some (NodeRef car),
                                    lightTarget := Some (NodeRef car)\<rparr>"
        using \<open>currentModel v = Some c\<close> True
        by (simp add: showCar_def state_of_andThen v1_def)
      have m: "models v1 = models v" by (simp add: v1_def)
      have a: "\<forall>k n. models v k = Some n \<longrightarrow> n < length (objects v1)"
        and b: "\<forall>k k' n. models v k = Some n \<longrightarrow> models v k' = Some n \<longrightarrow> k = k'"
        using r1 unfolding reg_ok_def m by blast+
      show ?thesis
        unfolding e reg_ok_def using a b h Some by (auto simp: m)
    qed
  qed
qed

lemma load_ok_unchanged:
  assumes "load_ok v" "models w = models v" "pending w = pending v"
    "requested w = requested v" "length (objects w) = length (objects v)"
  shows "load_ok w"
  using assms unfolding load_ok_def by auto

lemma inv_switchModel: "viewer_inv v \<Longrightarrow> viewer_inv (state_of (switchModel key v))"
proof -
  assume "viewer_inv v"
  then have r: "reg_ok v" and l: "load_ok v" by (simp_all add: viewer_inv_def)
  have "load_ok (state_of (switchModel key v))"
    by (rule load_ok_unchanged [OF l]) simp_all
  with reg_ok_switchModel [OF r] show ?thesis by (simp add: viewer_inv_def)
qed

lemma inv_showCar: "viewer_inv v \<Longrightarrow> viewer_inv (state_of (showCar v))"
proof -
  assume "viewer_inv v"
  then have r: "reg_ok v" and l: "load_ok v" by (simp_all add: viewer_inv_def)
  have "load_ok (state_of (showCar v))"
    by (rule load_ok_unchanged [OF l]) simp_all
  with reg_ok_showCar [OF r] show ?thesis by (simp add: viewer_inv_def)
qed

lemma inv_visitSection: "viewer_inv v \<Longrightarrow> viewer_inv (state_of (visitSection y h s v))"
  by (simp add: visitSection_def inv_switchModel)

lemma forEach_invariant:
  assumes "\<And>x w. P w \<Longrightarrow> P (state_of (f x w))" "P v"
  shows "P (state_of (forEach f xs v))"
  using assms(2)
  by (induction xs arbitrary: v) (simp_all add: state_of_andThen assms(1))

lemma inv_forEach_visit:
  "viewer_inv v \<Longrightarrow> viewer_inv (state_of (forEach (visitSection y h) ss v))"
  by (rule forEach_invariant [where P = viewer_inv]) (simp_all add: inv_visitSection)

lemma inv_forEach_visit_indexed:
  "viewer_inv v \<Longrightarrow>
   viewer_inv (state_of (forEach (\<lambda>(index, s) w. if index = 0 then Returned w
                                                  else visitSection y h s w) ixs v))"
  by (induction ixs arbitrary: v) (auto simp: state_of_andThen inv_visitSection)

lemma inv_handleScroll: "viewer_inv v \<Longrightarrow> viewer_inv (state_of (handleScroll ss y h v))"
  by (simp add: handleScroll_def inv_showCar inv_forEach_visit_indexed)

lemma inv_handleScroll_part000:
  "viewer_inv v \<Longrightarrow> viewer_inv (state_of (handleScroll_part000 sol ss y h v))"
  by (simp add: handleScroll_part000_def inv_showCar inv_forEach_visit)

lemma loadOtherModels_eq:
  "loadOtherModels v =
     v\<lparr>pending := pending v @ map (\<lambda>(key, path). OtherLoad key) modelPaths,
       requested := requested v @ map (\<lambda>(key, path). (OtherLoad key, path)) modelPaths\<rparr>"
  by (simp add: loadOtherModels_def modelPaths_def loader_load_def)

lemma isVisible_scene_add:
  "isVisible (scene_add model v) m =
     (if m = length (objects v) then visible (props model) else isVisible v m)"
  by (auto simp: isVisible_def scene_add_def nth_append)

lemma isVisible_bound: "isVisible v m \<Longrightarrow> m < length (objects v)"
  by (simp add: isVisible_def)

lemma reg_ok_otherLoaded:
  assumes "reg_ok v" "models v key = None" "key \<noteq> ''car''"
  shows "reg_ok (otherLoaded key g v)"
proof -
  have vis: "isVisible (otherLoaded key g v) m = (m < length (objects v) \<and> isVisible v m)" for m
    by (auto simp: otherLoaded_def Let_def isVisible_scene_add map_fields_def
        dest: isVisible_bound)
  have flds: "models (otherLoaded key g v) = (models v)(key \<mapsto> length (objects v))"
    "currentModel (otherLoaded key g v) = currentModel v"
    "length (objects (otherLoaded key g v)) = Suc (length (objects v))"
    by (simp_all add: otherLoaded_def Let_def scene_add_def)
  have reg: "\<exists>k. ((models v)(key \<mapsto> length (objects v))) k = Some n"
    if "currentModel v = Some (NodeRef n)" for n
  proof -
    from that assms(1) obtain k where k: "models v k = Some n"
      unfolding reg_ok_def by blast
    with assms(2) have "k \<noteq> key" by auto
    with k show ?thesis by (intro exI [of _ k]) simp
  qed
  show ?thesis
    using assms reg unfolding reg_ok_def vis flds
    by (auto simp: less_Suc_eq split: if_splits)
qed

lemma otherLoaded_simps:
  "models (otherLoaded key g v) = (models v)(key \<mapsto> length (objects v))"
  "currentModel (otherLoaded key g v) = currentModel v"
  "pending (otherLoaded key g v) = pending v"
  "requested (otherLoaded key g v) = requested v"
  "length (objects (otherLoaded key g v)) = Suc (length (objects v))"
  by (simp_all add: otherLoaded_def Let_def scene_add_def)

lemma otherLoaded_part000_simps:
  "models (otherLoaded_part000 sol key g v) = (models v)(key \<mapsto> length (objects v))"
  "pending (otherLoaded_part000 sol key g v) = pending v"
  "requested (otherLoaded_part000 sol key g v) = requested v"
  "length (objects (otherLoaded_part000 sol key g v)) = Suc (length (objects v))"
  by (simp_all add: otherLoaded_part000_def Let_def otherLoaded_simps)

lemma load_ok_registered:
  assumes "load_ok v" "OtherLoad key \<in> set (pending v)"
    "models w = (models v)(key \<mapsto> n)"
    "pending w = remove1 (OtherLoad key) (pending v)"
    "requested w = requested v"
  shows "load_ok w"
proof -
  from assms(1,2) have nocar: "CarLoad \<notin> set (pending v)"
    unfolding load_ok_def by auto
  show ?thesis
    using assms nocar unfolding load_ok_def
    by (auto simp: image_iff)
qed

lemma load_ok_key:
  assumes "load_ok v" "OtherLoad key \<in> set (pending v)"
  shows "models v key = None" "key \<noteq> ''car''"
  using assms unfolding load_ok_def modelPaths_def by auto

lemma complete_simps [simp]:
  "models (complete r v) = models v"
  "currentModel (complete r v) = currentModel v"
  "objects (complete r v) = objects v"
  "requested (complete r v) = requested v"
  "pending (complete r v) = remove1 r (pending v)"
  "isVisible (complete r v) m = isVisible v m"
  by (simp_all add: complete_def)

lemma reg_ok_complete: "reg_ok (complete r v) = reg_ok v"
  by (simp add: reg_ok_def)

lemma reg_ok_otherLoaded_part000:
  assumes "reg_ok v" "models v key = None" "key \<noteq> ''car''"
  shows "reg_ok (otherLoaded_part000 sol key g v)"
proof (cases "sol \<and> key = ''livingroom'' \<and> currentModel v = None")
  case False
  then have "otherLoaded_part000 sol key g v = otherLoaded key g v"
    by (auto simp: otherLoaded_part000_def Let_def otherLoaded_simps)
  then show ?thesis
    using assms by (simp add: reg_ok_otherLoaded)
next
  case True
  define w where "w = otherLoaded key g v"
  define n where "n = length (objects v)"
  have w: "reg_ok w" unfolding w_def using assms by (rule reg_ok_otherLoaded)
  have eq: "otherLoaded_part000 sol key g v = setVisible n True (w\<lparr>currentModel := Some (NodeRef n)\<rparr>)"
    using True by (simp add: otherLoaded_part000_def Let_def otherLoaded_simps w_def n_def)
  have cur: "currentModel w = None" and key: "models w key = Some n"
    using True by (simp_all add: w_def n_def otherLoaded_simps)
  have none: "\<not> isVisible w m" for m
    using w cur unfolding reg_ok_def by auto
  have a: "\<forall>k m. models w k = Some m \<longrightarrow> m < length (objects w)"
    and b: "\<forall>k k' m. models w k = Some m \<longrightarrow> models w k' = Some m \<longrightarrow> k = k'"
    using w unfolding reg_ok_def by blast+
  show ?thesis
    unfolding eq reg_ok_def
  proof (intro conjI)
    show "\<forall>k m. models (setVisible n True (w\<lparr>currentModel := Some (NodeRef n)\<rparr>)) k = Some m \<longrightarrow>
        m < length (objects (setVisible n True (w\<lparr>currentModel := Some (NodeRef n)\<rparr>)))"
      using a by simp
    show "\<forall>k k' m. models (setVisible n True (w\<lparr>currentModel := Some (NodeRef n)\<rparr>)) k = Some m \<longrightarrow>
        models (setVisible n True (w\<lparr>currentModel := Some (NodeRef n)\<rparr>)) k' = Some m \<longrightarrow> k = k'"
      using b by simp
    show "\<forall>m. currentModel (setVisible n True (w\<lparr>currentModel := Some (NodeRef n)\<rparr>))
              = Some (NodeRef m) \<longrightarrow>
        (\<exists>k. models (setVisible n True (w\<lparr>currentModel := Some (NodeRef n)\<rparr>)) k = Some m)"
      using key by auto
    show "\<forall>m. isVisible (setVisible n True (w\<lparr>currentModel := Some (NodeRef n)\<rparr>)) m \<longrightarrow>
        currentModel (setVisible n True (w\<lparr>currentModel := Some (NodeRef n)\<rparr>))
          = Some (NodeRef m)"
      using none by simp
    show "\<forall>m. models (setVisible n True (w\<lparr>currentModel := Some (NodeRef n)\<rparr>)) ''car'' = Some m \<longrightarrow>
        currentModel (setVisible n True (w\<lparr>currentModel := Some (NodeRef n)\<rparr>)) \<noteq> None"
      by simp
  qed
qed

lemma inv_otherLoaded:
  assumes "viewer_inv v" "OtherLoad key \<in> set (pending v)"
  shows "viewer_inv (otherLoaded key g (complete (OtherLoad key) v))"
    and "viewer_inv (otherLoaded_part000 sol key g (complete (OtherLoad key) v))"
proof -
  from assms have r: "reg_ok (complete (OtherLoad key) v)" and l: "load_ok v"
    by (simp_all add: viewer_inv_def reg_ok_complete)
  note k = load_ok_key [OF l assms(2)]
  show "viewer_inv (otherLoaded key g (complete (OtherLoad key) v))"
    unfolding viewer_inv_def
    using r k l assms(2)
    by (auto intro!: reg_ok_otherLoaded load_ok_registered [of v key] simp: otherLoaded_simps)
  show "viewer_inv (otherLoaded_part000 sol key g (complete (OtherLoad key) v))"
    unfolding viewer_inv_def
    using r k l assms(2)
    by (auto intro!: reg_ok_otherLoaded_part000 load_ok_registered [of v key]
        simp: otherLoaded_part000_simps)
qed

lemma carLoaded_eq:
  "carLoaded g v =
     v\<lparr>objects := objects v @ [prepareModel g True],
       sceneChildren := sceneChildren v @ [length (objects v)],
       currentModel := Some (NodeRef (length (objects v))),
       models := (models v)(''car'' \<mapsto> length (objects v)),
       progressHidden := True,
       pending := pending v @ map (\<lambda>(key, path). OtherLoad key) modelPaths,
       requested := requested v @ map (\<lambda>(key, path). (OtherLoad key, path)) modelPaths\<rparr>"
  by (simp add: carLoaded_def Let_def scene_add_def loadOtherModels_eq)

lemma carFailed_eq:
  "carFailed v =
     v\<lparr>progressError := True,
       pending := pending v @ map (\<lambda>(key, path). OtherLoad key) modelPaths,
       requested := requested v @ map (\<lambda>(key, path). (OtherLoad key, path)) modelPaths\<rparr>"
  by (simp add: carFailed_def loadOtherModels_eq)

lemma distinct_singleton_set:
  "distinct xs \<Longrightarrow> a \<in> set xs \<Longrightarrow> set xs \<subseteq> {a} \<Longrightarrow> xs = [a]"
proof (cases xs)
  case Nil
  assume "a \<in> set xs" with Nil show ?thesis by simp
next
  case (Cons x ys)
  assume d: "distinct xs" and s: "set xs \<subseteq> {a}"
  from Cons s have x: "x = a" by simp
  have "ys = []"
  proof (cases ys)
    case (Cons y zs)
    with \<open>xs = x # ys\<close> s have "y = a" by simp
    with Cons \<open>xs = x # ys\<close> x d show ?thesis by simp
  qed simp
  with Cons x show ?thesis by simp
qed

lemma phase1:
  assumes "viewer_inv v" "CarLoad \<in> set (pending v)"
  shows "pending v = [CarLoad]" "map fst (requested v) = [CarLoad]" "objects v = []"
    "models v = Map.empty"
proof -
  from assms have l: "load_ok v" by (simp add: viewer_inv_def)
  with assms(2) show r: "map fst (requested v) = [CarLoad]" and "objects v = []"
    "models v = Map.empty"
    unfolding load_ok_def by auto
  from l have d: "distinct (pending v)" and sub: "set (pending v) \<subseteq> fst ` set (requested v)"
    unfolding load_ok_def by auto
  have "fst ` set (requested v) = set (map fst (requested v))" by simp
  also have "\<dots> = {CarLoad}" unfolding r by simp
  finally have "set (pending v) \<subseteq> {CarLoad}" using sub by simp
  with d assms(2) show "pending v = [CarLoad]"
    by (intro distinct_singleton_set) auto
qed

lemma modelPaths_keys:
  "map (\<lambda>(key, path). OtherLoad key) modelPaths =
     [OtherLoad ''livingroom'', OtherLoad ''bedroom'', OtherLoad ''kitchen'']"
  "map fst (map (\<lambda>(key, path). (OtherLoad key, path)) modelPaths) =
     [OtherLoad ''livingroom'', OtherLoad ''bedroom'', OtherLoad ''kitchen'']"
  "fst ` set modelPaths = {''livingroom'', ''bedroom'', ''kitchen''}"
  by (simp_all add: modelPaths_def)

lemma inv_carLoaded:
  assumes "viewer_inv v" "CarLoad \<in> set (pending v)"
  shows "viewer_inv (carLoaded g (complete CarLoad v))"
proof -
  note p = phase1 [OF assms]
  let ?w = "carLoaded g (complete CarLoad v)"
  have f: "objects ?w = [prepareModel g True]" "models ?w = [''car'' \<mapsto> 0]"
    "currentModel ?w = Some (NodeRef 0)"
    "pending ?w = [OtherLoad ''livingroom'', OtherLoad ''bedroom'', OtherLoad ''kitchen'']"
    "map fst (requested ?w) =
       [CarLoad, OtherLoad ''livingroom'', OtherLoad ''bedroom'', OtherLoad ''kitchen'']"
    using p by (simp_all add: carLoaded_eq modelPaths_def)
  have s: "fst ` set (requested ?w) = set (map fst (requested ?w))" by simp
  have "reg_ok ?w"
    unfolding reg_ok_def isVisible_def f by (auto split: if_splits)
  moreover have "load_ok ?w"
    unfolding load_ok_def s f modelPaths_keys by auto
  ultimately show ?thesis by (simp add: viewer_inv_def)
qed

lemma inv_carFailed:
  assumes "viewer_inv v" "CarLoad \<in> set (pending v)"
  shows "viewer_inv (carFailed (complete CarLoad v))"
proof -
  note p = phase1 [OF assms]
  let ?w = "carFailed (complete CarLoad v)"
  have f: "objects ?w = objects v" "models ?w = models v" "currentModel ?w = currentModel v"
    "pending ?w = [OtherLoad ''livingroom'', OtherLoad ''bedroom'', OtherLoad ''kitchen'']"
    "map fst (requested ?w) =
       [CarLoad, OtherLoad ''livingroom'', OtherLoad ''bedroom'', OtherLoad ''kitchen'']"
    using p by (simp_all add: carFailed_eq modelPaths_def)
  have s: "fst ` set (requested ?w) = set (map fst (requested ?w))" by simp
  from assms(1) have "reg_ok ?w"
    unfolding viewer_inv_def reg_ok_def isVisible_def f by simp
  moreover have "load_ok ?w"
    unfolding load_ok_def s f modelPaths_keys using p by auto
  ultimately show ?thesis by (simp add: viewer_inv_def)
qed

lemma inv_failed:
  assumes "viewer_inv v"
  shows "viewer_inv (otherFailed key (complete (OtherLoad key) v))"
proof -
  from assms have r: "reg_ok v" and l: "load_ok v" by (simp_all add: viewer_inv_def)
  have "set (remove1 (OtherLoad key) (pending v)) \<subseteq> set (pending v)"
    by (rule set_remove1_subset)
  with l have "load_ok (complete (OtherLoad key) v)"
    unfolding load_ok_def by (auto simp: image_iff)
  with r show ?thesis
    by (simp add: viewer_inv_def otherFailed_def reg_ok_complete)
qed

lemma inv_init: "viewer_inv init"
  by (simp add: viewer_inv_def reg_ok_def load_ok_def init_def loadCarModel_def
      loader_load_def emptyViewer_def isVisible_def)

lemma inv_init_part000: "viewer_inv (init_part000 sol)"
  by (cases sol)
    (simp_all add: viewer_inv_def reg_ok_def load_ok_def init_part000_def
      loadCarModel_part000_def loader_load_def emptyViewer_def isVisible_def
      loadOtherModels_eq modelPaths_def)

lemma inv_step: "viewer_inv v \<Longrightarrow> viewer_inv (state_of (step e v))"
proof (cases e)
  case (LoadSuccess r g)
  assume "viewer_inv v"
  then show ?thesis
    using LoadSuccess by (cases r) (simp_all add: inv_carLoaded inv_otherLoaded)
next
  case (LoadError r)
  assume "viewer_inv v"
  then show ?thesis
    using LoadError by (cases r) (simp_all add: inv_carFailed inv_failed)
qed (simp_all add: inv_handleScroll inv_switchModel)

lemma inv_step_part000: "viewer_inv v \<Longrightarrow> viewer_inv (state_of (step_part000 sol e v))"
proof (cases e)
  case (LoadSuccess r g)
  assume "viewer_inv v"
  then show ?thesis
    using LoadSuccess by (cases r) (simp_all add: inv_carLoaded inv_otherLoaded)
next
  case (LoadError r)
  assume "viewer_inv v"
  then show ?thesis
    using LoadError by (cases r) (simp_all add: inv_carFailed inv_failed)
qed (simp_all add: inv_handleScroll_part000 inv_switchModel)

lemma inv_exec: "viewer_inv v \<Longrightarrow> viewer_inv (exec v es)"
  unfolding exec_def by (induction es arbitrary: v) (simp_all add: inv_step)

lemma inv_exec_part000: "viewer_inv v \<Longrightarrow> viewer_inv (exec_part000 sol v es)"
  unfolding exec_part000_def by (induction es arbitrary: v) (simp_all add: inv_step_part000)

lemma reachable: "viewer_inv (exec init es)"
  by (rule inv_exec [OF inv_init])

lemma reachable_part000: "viewer_inv (exec_part000 sol (init_part000 sol) es)"
  by (rule inv_exec_part000 [OF inv_init_part000])

section \<open>prepareModel\<close>

lemma prepareModel_scale:
  "scale (props (prepareModel model isCar)) =
     (if isCar then Vector3 (12 / 10) (12 / 10) (12 / 10) else Vector3 (8 / 10) (8 / 10) (8 / 10))"
  by (cases model) (simp add: prepareModel_def centerModel_def adjustScale_def Let_def
      map_fields_def setupChild_def split: option.splits)

lemma prepareModel_visible:
  "visible (props (prepareModel model isCar)) = visible (props model)"
  by (cases model) (simp add: prepareModel_def centerModel_def adjustScale_def Let_def
      map_fields_def setupChild_def split: option.splits)

text \<open>
  The centring step is right for every node: the bounding box follows a translation of
  the root, so subtracting the centre puts the centre at the origin.
\<close>

lemma applyTransform_translate:
  "applyTransform (vadd d off) fac g = translateBox d (applyTransform off fac g)"
  by (simp add: applyTransform_def translateBox_def vadd_def vmul_def vmin_def vmax_def Let_def
      min_add_distrib_right max_add_distrib_right add.assoc)

lemma box_union_translate:
  "box_union (map_option (translateBox d) acc) (translateBox d b) =
     map_option (translateBox d) (box_union acc b)"
  by (cases acc) (simp_all add: box_union_def translateBox_def vadd_def vmin_def vmax_def
      min_add_distrib_right max_add_distrib_right)

lemma expandByObject_translate:
  "expandByObject (vadd d off) fac obj (map_option (translateBox d) acc) =
     map_option (translateBox d) (expandByObject off fac obj acc)"
proof (induction off fac obj acc rule: expandByObject.induct)
  case (1 off fac f cs acc)
  define off' where "off' = vadd off (vmul fac (position f))"
  define fac' where "fac' = vmul fac (scale f)"
  have o: "vadd (vadd d off) (vmul fac (position f)) = vadd d off'"
    by (simp add: off'_def vadd_def add.assoc)
  have ih: "expandByObject (vadd d off') fac' c (map_option (translateBox d) a) =
      map_option (translateBox d) (expandByObject off' fac' c a)" if "c \<in> set cs" for c a
    using "1.IH" [OF refl refl refl that, of a] by (simp add: off'_def fac'_def)
  have fold_eq: "fold (expandByObject (vadd d off') fac') ds (map_option (translateBox d) a) =
      map_option (translateBox d) (fold (expandByObject off' fac') ds a)"
    if "set ds \<subseteq> set cs" for ds a
    using that by (induction ds arbitrary: a) (simp_all add: ih)
  show ?case
    by (cases "geometry f")
      (simp_all add: o Let_def off'_def [symmetric] fac'_def [symmetric] fold_eq
        applyTransform_translate box_union_translate)
qed

lemma getCenter_translate:
  "getCenter (Some (translateBox d b)) = vadd d (getCenter (Some b))"
  by (simp add: getCenter_def translateBox_def vadd_def vmul_def vscalar_def algebra_simps)

lemma centerModel_centers: "getCenter (setFromObject (centerModel model)) = Vector3 0 0 0"
proof (cases model)
  case (Object3D f cs)
  define c where "c = getCenter (setFromObject (Object3D f cs))"
  define d where "d = vsub (vscalar 0) c"
  have moved: "centerModel (Object3D f cs) = Object3D (f\<lparr>position := vsub (position f) c\<rparr>) cs"
    by (simp add: centerModel_def Let_def map_fields_def c_def)
  have off: "vadd (vscalar 0) (vmul (vscalar 1) (vsub (position f) c)) =
      vadd (vadd d (vscalar 0)) (vmul (vscalar 1) (position f))"
    by (simp add: d_def vadd_def vsub_def vmul_def vscalar_def)
  have "setFromObject (centerModel (Object3D f cs)) =
      expandByObject (vadd d (vscalar 0)) (vscalar 1) (Object3D f cs)
        (map_option (translateBox d) None)"
    unfolding moved setFromObject_def by (simp add: off Let_def)
  also have "\<dots> = map_option (translateBox d) (setFromObject (Object3D f cs))"
    unfolding setFromObject_def by (rule expandByObject_translate)
  finally have eq: "setFromObject (centerModel (Object3D f cs)) =
      map_option (translateBox d) (setFromObject (Object3D f cs))" .
  show ?thesis
  proof (cases "setFromObject (Object3D f cs)")
    case None
    with eq show ?thesis by (simp add: Object3D getCenter_def vscalar_def)
  next
    case (Some b)
    with eq have "getCenter (setFromObject (centerModel (Object3D f cs))) = vadd d c"
      by (simp add: getCenter_translate c_def)
    then show ?thesis
      by (simp add: Object3D d_def vadd_def vsub_def vscalar_def)
  qed
qed

lemmas box_defs =
  setFromObject_def getCenter_def map_fields_def vscalar_def vadd_def vsub_def vmul_def
  vmin_def vmax_def applyTransform_def box_union_def

text \<open>
  C4. \<^verbatim>\<open>prepareModel\<close> is meant to return a node whose bounding-box centre is the origin
  and whose scale is 1.2 or 0.8. The scale is as stated. The centre is not: the box is
  measured and the position corrected under the old scale, and the scale is overwritten
  afterwards, which moves the box again. For a scene of scale 1 whose mesh spans 0 to 2
  on each axis the centre is at 1; it is at the origin after the centring step, and
  after \<^verbatim>\<open>prepareModel\<close> it is at 0.2 for the car and at -0.2 otherwise.
\<close>

theorem prepareModel_center_off_origin:
  "getCenter (setFromObject sampleScene) = Vector3 1 1 1 \<and>
   getCenter (setFromObject (centerModel sampleScene)) = Vector3 0 0 0 \<and>
   getCenter (setFromObject (prepareModel sampleScene True)) = Vector3 (1 / 5) (1 / 5) (1 / 5) \<and>
   getCenter (setFromObject (prepareModel sampleScene False)) =
     Vector3 (- (1 / 5)) (- (1 / 5)) (- (1 / 5)) \<and>
   scale (props (prepareModel sampleScene True)) = Vector3 (12 / 10) (12 / 10) (12 / 10) \<and>
   scale (props (prepareModel sampleScene False)) = Vector3 (8 / 10) (8 / 10) (8 / 10)"
  by (simp add: sampleScene_def sampleMesh_def prepareModel_def centerModel_def
      adjustScale_def Let_def box_defs setupChild_def)

section \<open>Sample states\<close>

lemma carAndLivingroom_eval:
  "models carAndLivingroom = [''car'' \<mapsto> 0, ''livingroom'' \<mapsto> 1]"
  "currentModel carAndLivingroom = Some (NodeRef 0)"
  "lightTarget carAndLivingroom = None"
  "pending carAndLivingroom = [OtherLoad ''bedroom'', OtherLoad ''kitchen'']"
  "map (\<lambda>ob. visible (props ob)) (objects carAndLivingroom) = [True, False]"
  "prototypeVisible carAndLivingroom = None"
  by (simp_all add: carAndLivingroom_def exec_def init_def loadCarModel_def loader_load_def
      emptyViewer_def carLoaded_eq complete_def otherLoaded_def Let_def scene_add_def
      modelPaths_def map_fields_def prepareModel_visible sampleMesh_def)

lemma carAndLivingroom_part000_eval:
  "models carAndLivingroom_part000 = [''car'' \<mapsto> 0, ''livingroom'' \<mapsto> 1]"
  "currentModel carAndLivingroom_part000 = Some (NodeRef 0)"
  by (simp_all add: carAndLivingroom_part000_def exec_part000_def init_part000_def
      loadCarModel_part000_def loader_load_def emptyViewer_def carLoaded_eq complete_def
      otherLoaded_part000_def otherLoaded_def Let_def scene_add_def modelPaths_def)

lemma isVisible_map:
  "isVisible v n =
     (n < length (map (\<lambda>ob. visible (props ob)) (objects v)) \<and>
      map (\<lambda>ob. visible (props ob)) (objects v) ! n)"
  by (auto simp: isVisible_def)

lemma carAndLivingroom_visible: "isVisible carAndLivingroom n = (n = 0)"
  unfolding isVisible_map carAndLivingroom_eval
  by (cases n) (auto simp: less_Suc_eq)


section \<open>switchModel\<close>

lemma andThen_Returned [simp]: "andThen r Returned = r"
  by (cases r) simp_all

lemma modelsGet_own:
  "key \<notin> set inheritedNames \<Longrightarrow> key \<noteq> ''visible'' \<Longrightarrow>
   modelsGet v key = map_option NodeRef (models v key)"
  by (simp add: modelsGet_def inheritedNames_def split: option.splits)

text \<open>
  What a call does when \<^verbatim>\<open>models\<close> finds nothing under the key: it hides the current
  model.
\<close>

lemma switchModel_not_found:
  assumes "modelKey = None \<or> modelKey = Some [] \<or>
           (\<exists>k. modelKey = Some k \<and> modelsGet (state_of (hideCurrent v)) k = None)"
  shows "switchModel modelKey v = hideCurrent v"
proof (cases "hideCurrent v")
  case (Returned w)
  with assms show ?thesis
    by (auto simp: switchModel_def showModel_def)
next
  case (Threw e w)
  then show ?thesis by (simp add: switchModel_def)
qed

text \<open>What a call does for a registered key, unless the current value is \<^verbatim>\<open>true\<close>.\<close>

lemma switchModel_registered:
  assumes "models v key = Some n" "key \<noteq> []" "currentModel v \<noteq> Some TrueValue"
  shows "returned (switchModel (Some key) v)"
    "currentModel (state_of (switchModel (Some key) v)) = Some (NodeRef n)"
    "lightTarget (state_of (switchModel (Some key) v)) = Some (NodeRef n)"
    "isVisible (state_of (switchModel (Some key) v)) m \<longleftrightarrow>
       (if m = n then n < length (objects v)
        else isVisible v m \<and> currentModel v \<noteq> Some (NodeRef m))"
proof -
  define w where "w = state_of (hideCurrent v)"
  have g: "modelsGet w key = Some (NodeRef n)"
    using assms(1) by (simp add: modelsGet_NodeRef w_def)
  have s: "switchModel (Some key) v =
      Returned ((setVisible n True (w\<lparr>currentModel := Some (NodeRef n)\<rparr>))
                  \<lparr>lightTarget := Some (NodeRef n)\<rparr>)"
    using assms(2,3) g
    by (simp add: switchModel_def andThen_state showModel_def w_def)
  show "returned (switchModel (Some key) v)"
    "currentModel (state_of (switchModel (Some key) v)) = Some (NodeRef n)"
    "lightTarget (state_of (switchModel (Some key) v)) = Some (NodeRef n)"
    "isVisible (state_of (switchModel (Some key) v)) m \<longleftrightarrow>
       (if m = n then n < length (objects v)
        else isVisible v m \<and> currentModel v \<noteq> Some (NodeRef m))"
    unfolding s by (simp_all add: w_def)
qed

lemma hideCurrent_carAndLivingroom:
  "hideCurrent carAndLivingroom = Returned (setVisible 0 False carAndLivingroom)"
  by (simp add: hideCurrent_def carAndLivingroom_eval)

text \<open>
  C1. A call of \<^verbatim>\<open>switchModel\<close> with a key that is not registered is meant to change
  nothing. \<^verbatim>\<open>switchModel\<close> hides the current model before it tests the key, so the call
  keeps \<^verbatim>\<open>currentModel\<close> and clears the current model's visible flag. With the car
  current and visible, \<^verbatim>\<open>switchModel("nonexistent")\<close> leaves the car current and hidden;
  a scroll back into the first section then finds the car current and does not show it.
\<close>

theorem switchModel_unknown_key_hides_current:
  "models carAndLivingroom ''nonexistent'' = None \<and>
   currentModel carAndLivingroom = Some (NodeRef 0) \<and>
   isVisible carAndLivingroom 0 \<and>
   returned (switchModel (Some ''nonexistent'') carAndLivingroom) \<and>
   currentModel (state_of (switchModel (Some ''nonexistent'') carAndLivingroom))
     = Some (NodeRef 0) \<and>
   \<not> isVisible (state_of (switchModel (Some ''nonexistent'') carAndLivingroom)) 0 \<and>
   handleScroll samplePage 0 800
       (state_of (switchModel (Some ''nonexistent'') carAndLivingroom)) =
     Returned (state_of (switchModel (Some ''nonexistent'') carAndLivingroom)) \<and>
   \<not> isVisible (state_of (handleScroll samplePage 0 800
                   (state_of (switchModel (Some ''nonexistent'') carAndLivingroom)))) 0"
proof -
  have g: "modelsGet (state_of (hideCurrent carAndLivingroom)) ''nonexistent'' = None"
    by (simp add: modelsGet_own inheritedNames_def inheritedFunctions_def
        carAndLivingroom_eval)
  have s: "switchModel (Some ''nonexistent'') carAndLivingroom =
      Returned (setVisible 0 False carAndLivingroom)"
    using switchModel_not_found [of "Some ''nonexistent''" carAndLivingroom] g
    by (simp add: hideCurrent_carAndLivingroom)
  show ?thesis
    unfolding s
    by (simp add: carAndLivingroom_eval carAndLivingroom_visible handleScroll_def
        samplePage_def showCar_def)
qed

lemma switchModel_None_hides:
  assumes "reg_ok v" "currentModel v = Some (NodeRef n)"
  shows "returned (switchModel None v) \<and>
         currentModel (state_of (switchModel None v)) = Some (NodeRef n) \<and>
         (\<forall>m. \<not> isVisible (state_of (switchModel None v)) m) \<and>
         n < length (objects (state_of (switchModel None v))) \<and>
         (\<exists>k. models (state_of (switchModel None v)) k = Some n)"
proof -
  have eq: "switchModel None v = Returned (setVisible n False v)"
    using assms(2) switchModel_not_found [of None v] by (simp add: hideCurrent_def)
  from assms obtain k where k: "models v k = Some n" unfolding reg_ok_def by blast
  with assms(1) have b: "n < length (objects v)" unfolding reg_ok_def by blast
  have "\<not> isVisible (setVisible n False v) m" for m
    using assms unfolding reg_ok_def by auto
  with assms(2) k b show ?thesis unfolding eq by auto
qed

text \<open>
  C10. In every state a run of either file reaches, \<^verbatim>\<open>switchModel(null)\<close> with a node as
  the current model returns and leaves that node current, registered and in the store,
  and no node is visible afterwards.
\<close>

theorem switchModel_null_hides_current:
  "(currentModel (exec init es) = Some (NodeRef n) \<longrightarrow>
      returned (switchModel None (exec init es)) \<and>
      currentModel (state_of (switchModel None (exec init es))) = Some (NodeRef n) \<and>
      (\<forall>m. \<not> isVisible (state_of (switchModel None (exec init es))) m) \<and>
      n < length (objects (state_of (switchModel None (exec init es)))) \<and>
      (\<exists>k. models (state_of (switchModel None (exec init es))) k = Some n)) \<and>
   (currentModel (exec_part000 sol (init_part000 sol) es) = Some (NodeRef n) \<longrightarrow>
      returned (switchModel None (exec_part000 sol (init_part000 sol) es)) \<and>
      currentModel (state_of (switchModel None (exec_part000 sol (init_part000 sol) es)))
        = Some (NodeRef n) \<and>
      (\<forall>m. \<not> isVisible
               (state_of (switchModel None (exec_part000 sol (init_part000 sol) es))) m) \<and>
      n < length (objects
                    (state_of (switchModel None (exec_part000 sol (init_part000 sol) es)))) \<and>
      (\<exists>k. models (state_of (switchModel None (exec_part000 sol (init_part000 sol) es))) k
             = Some n))"
proof -
  have r: "reg_ok (exec init es)" "reg_ok (exec_part000 sol (init_part000 sol) es)"
    using reachable [of es] reachable_part000 [of sol es] by (simp_all add: viewer_inv_def)
  show ?thesis
    using switchModel_None_hides [OF r(1)] switchModel_None_hides [OF r(2)] by blast
qed

theorem switchModel_null_hides_current_witness:
  "currentModel carAndLivingroom = Some (NodeRef 0) \<and>
   currentModel carAndLivingroom_part000 = Some (NodeRef 0) \<and>
   currentModel (state_of (switchModel None carAndLivingroom)) = Some (NodeRef 0) \<and>
   \<not> isVisible (state_of (switchModel None carAndLivingroom)) 0 \<and>
   currentModel (state_of (switchModel None carAndLivingroom_part000)) = Some (NodeRef 0) \<and>
   \<not> isVisible (state_of (switchModel None carAndLivingroom_part000)) 0"
proof -
  have h: "currentModel carAndLivingroom = Some (NodeRef 0)"
    "currentModel carAndLivingroom_part000 = Some (NodeRef 0)"
    by (simp_all add: carAndLivingroom_eval carAndLivingroom_part000_eval)
  from switchModel_null_hides_current [of "[LoadSuccess CarLoad sampleMesh,
      LoadSuccess (OtherLoad ''livingroom'') sampleMesh]" 0 False,
      folded carAndLivingroom_def carAndLivingroom_part000_def] h
  show ?thesis by blast
qed

section \<open>At most one visible model\<close>

text \<open>
  C2. After any sequence of load completions, scroll events and calls of \<^verbatim>\<open>switchModel\<close>
  with any keys, starting from the start of \<^verbatim>\<open>main.js\<close>, two registered models that are
  both visible are the same model under the same key, and it is the current one.
\<close>

theorem at_most_one_visible:
  "models (exec init es) k = Some n \<Longrightarrow> isVisible (exec init es) n \<Longrightarrow>
   models (exec init es) k' = Some n' \<Longrightarrow> isVisible (exec init es) n' \<Longrightarrow>
   k = k' \<and> n = n' \<and> currentModel (exec init es) = Some (NodeRef n)"
proof -
  assume a: "models (exec init es) k = Some n" "isVisible (exec init es) n"
    "models (exec init es) k' = Some n'" "isVisible (exec init es) n'"
  have r: "reg_ok (exec init es)" using reachable [of es] by (simp add: viewer_inv_def)
  from r a(2) have c: "currentModel (exec init es) = Some (NodeRef n)"
    unfolding reg_ok_def by blast
  from r a(4) have "currentModel (exec init es) = Some (NodeRef n')"
    unfolding reg_ok_def by blast
  with c have n: "n = n'" by simp
  with r a(1,3) have "k = k'" unfolding reg_ok_def by blast
  with n c show ?thesis by simp
qed

theorem at_most_one_visible_witness:
  "models (exec init [LoadSuccess CarLoad sampleMesh,
                      LoadSuccess (OtherLoad ''livingroom'') sampleMesh]) ''car'' = Some 0 \<and>
   isVisible (exec init [LoadSuccess CarLoad sampleMesh,
                         LoadSuccess (OtherLoad ''livingroom'') sampleMesh]) 0 \<and>
   currentModel (exec init [LoadSuccess CarLoad sampleMesh,
                            LoadSuccess (OtherLoad ''livingroom'') sampleMesh])
     = Some (NodeRef 0)"
proof -
  let ?es = "[LoadSuccess CarLoad sampleMesh, LoadSuccess (OtherLoad ''livingroom'') sampleMesh]"
  have m: "models (exec init ?es) ''car'' = Some 0"
    using carAndLivingroom_eval(1) by (simp add: carAndLivingroom_def)
  have v: "isVisible (exec init ?es) 0"
    using carAndLivingroom_visible [of 0] by (simp add: carAndLivingroom_def)
  from at_most_one_visible [OF m v m v] m v show ?thesis by simp
qed

section \<open>Total load failure\<close>

lemma exec_Cons: "exec v (e # es) = exec (state_of (step e v)) es"
  by (simp add: exec_def)

lemma exec_part000_Cons:
  "exec_part000 sol v (e # es) = exec_part000 sol (state_of (step_part000 sol e v)) es"
  by (simp add: exec_part000_def)

lemma exec_append: "exec v (es @ es') = exec (exec v es) es'"
  by (simp add: exec_def)

lemma trace_append: "trace v (es @ es') = trace v es @ trace (exec v es) es'"
  by (induction es arbitrary: v) (simp_all add: exec_def)

lemma switchModel_idle:
  assumes "idle v" "case modelKey of None \<Rightarrow> True | Some key \<Rightarrow> key \<notin> set inheritedNames"
  shows "switchModel modelKey v = Returned v"
proof -
  from assms(1) have h: "hideCurrent v = Returned v"
    by (simp add: idle_def hideCurrent_def)
  have "modelsGet v key = None" if "key \<notin> set inheritedNames" for key
    using that assms(1) by (simp add: modelsGet_def idle_def inheritedNames_def)
  with assms(2) have "modelKey = None \<or> modelKey = Some [] \<or>
      (\<exists>k. modelKey = Some k \<and> modelsGet (state_of (hideCurrent v)) k = None)"
    by (cases modelKey) (simp_all add: h)
  from switchModel_not_found [OF this] h show ?thesis by simp
qed

lemma forEach_unchanged:
  "(\<And>x. x \<in> set xs \<Longrightarrow> f x v = Returned v) \<Longrightarrow> forEach f xs v = Returned v"
  by (induction xs) simp_all

lemma visitSection_idle:
  assumes "idle v" "ownKeysOnly sections" "s \<in> set sections"
  shows "visitSection y h s v = Returned v"
proof -
  from assms(2,3) have "case data_model s of None \<Rightarrow> True | Some key \<Rightarrow> key \<notin> set inheritedNames"
    by (simp add: ownKeysOnly_def list_all_iff)
  with assms(1) show ?thesis by (simp add: visitSection_def switchModel_idle)
qed

lemma enumerate_snd: "x \<in> set (enumerate n xs) \<Longrightarrow> snd x \<in> set xs"
  by (induction xs arbitrary: n) auto

lemma handleScroll_idle:
  assumes "idle v" "ownKeysOnly sections" "2 \<le> length sections"
  shows "handleScroll sections y h v = Returned v"
proof -
  have "forEach (\<lambda>(index, s) w. if index = 0 then Returned w else visitSection y h s w)
          (enumerate 0 sections) v = Returned v"
  proof (rule forEach_unchanged)
    fix x assume "x \<in> set (enumerate 0 sections)"
    then have "snd x \<in> set sections" by (rule enumerate_snd)
    with assms(1,2) show "(case x of (index, s) \<Rightarrow>
        \<lambda>w. if index = 0 then Returned w else visitSection y h s w) v = Returned v"
      by (cases x) (simp add: visitSection_idle)
  qed
  moreover from assms(1) have "showCar v = Returned v"
    by (simp add: showCar_def idle_def)
  ultimately show ?thesis using assms(3) by (simp add: handleScroll_def)
qed

lemma handleScroll_part000_idle:
  assumes "idle v" "ownKeysOnly sections" "sol \<or> 2 \<le> length sections"
  shows "handleScroll_part000 sol sections y h v = Returned v"
proof -
  have "forEach (visitSection y h) sections v = Returned v"
    using assms(1,2) by (intro forEach_unchanged) (simp add: visitSection_idle)
  moreover from assms(1) have "showCar v = Returned v"
    by (simp add: showCar_def idle_def)
  ultimately show ?thesis using assms(3) by (auto simp: handleScroll_part000_def)
qed

lemma idle_loading:
  "idle v \<Longrightarrow> idle (carFailed (complete r v))"
  "idle v \<Longrightarrow> idle (otherFailed key (complete r v))"
  by (simp_all add: idle_def carFailed_eq otherFailed_def complete_def)

lemma idle_step:
  assumes "idle v" "failureOrScroll e"
    and "\<forall>p \<in> set (scrolledPages [e]). ownKeysOnly p \<and> 2 \<le> length p"
  shows "returned (step e v) \<and> idle (state_of (step e v))"
proof (cases e)
  case (LoadError r)
  with assms(1) show ?thesis by (cases r) (simp_all add: idle_loading)
next
  case (Scroll sections y h)
  with assms show ?thesis by (simp add: handleScroll_idle)
qed (use assms(2) in simp_all)

lemma idle_step_part000:
  assumes "idle v" "failureOrScroll e"
    and "\<forall>p \<in> set (scrolledPages [e]). ownKeysOnly p \<and> (sol \<or> 2 \<le> length p)"
  shows "returned (step_part000 sol e v) \<and> idle (state_of (step_part000 sol e v))"
proof (cases e)
  case (LoadError r)
  with assms(1) show ?thesis by (cases r) (simp_all add: idle_loading)
next
  case (Scroll sections y h)
  with assms show ?thesis by (simp add: handleScroll_part000_idle)
qed (use assms(2) in simp_all)

lemma scrolledPages_Cons: "scrolledPages (e # es) = scrolledPages [e] @ scrolledPages es"
  by (cases e) simp_all

lemma idle_run:
  assumes "idle v" "list_all failureOrScroll es"
    and "\<forall>p \<in> set (scrolledPages es). ownKeysOnly p \<and> 2 \<le> length p"
  shows "list_all returned (trace v es) \<and> idle (exec v es)"
  using assms
proof (induction es arbitrary: v)
  case Nil
  then show ?case by (simp add: exec_def)
next
  case (Cons e es)
  from Cons.prems(3) have p: "\<forall>p \<in> set (scrolledPages [e]). ownKeysOnly p \<and> 2 \<le> length p"
    "\<forall>p \<in> set (scrolledPages es). ownKeysOnly p \<and> 2 \<le> length p"
    by (simp_all add: scrolledPages_Cons [of e es])
  from Cons.prems(2) have e: "failureOrScroll e" and es: "list_all failureOrScroll es"
    by simp_all
  note s = idle_step [OF Cons.prems(1) e p(1)]
  from Cons.IH [OF conjunct2 [OF s] es p(2)] s show ?case by (simp add: exec_Cons)
qed

lemma idle_run_part000:
  assumes "idle v" "list_all failureOrScroll es"
    and "\<forall>p \<in> set (scrolledPages es). ownKeysOnly p \<and> (sol \<or> 2 \<le> length p)"
  shows "list_all returned (trace_part000 sol v es) \<and> idle (exec_part000 sol v es)"
  using assms
proof (induction es arbitrary: v)
  case Nil
  then show ?case by (simp add: exec_part000_def)
next
  case (Cons e es)
  from Cons.prems(3) have p:
    "\<forall>p \<in> set (scrolledPages [e]). ownKeysOnly p \<and> (sol \<or> 2 \<le> length p)"
    "\<forall>p \<in> set (scrolledPages es). ownKeysOnly p \<and> (sol \<or> 2 \<le> length p)"
    by (simp_all add: scrolledPages_Cons [of e es])
  from Cons.prems(2) have e: "failureOrScroll e" and es: "list_all failureOrScroll es"
    by simp_all
  note s = idle_step_part000 [OF Cons.prems(1) e p(1)]
  from Cons.IH [OF conjunct2 [OF s] es p(2)] s show ?case
    by (simp add: exec_part000_Cons)
qed

lemma init_idle: "idle init" "idle (init_part000 sol)"
  by (simp_all add: idle_def init_def init_part000_def loadCarModel_def
      loadCarModel_part000_def loader_load_def emptyViewer_def loadOtherModels_eq)

text \<open>
  C3. When every load fails, no handler throws and the viewer stays empty, provided that
  every scroll event finds a page with at least two sections (on the solutions page of
  \<^verbatim>\<open>part_000\<close>, any page) and no section names something \<^verbatim>\<open>models\<close> inherits from
  \<^verbatim>\<open>Object.prototype\<close>: in such a run every event returns, and no node, no registered
  model and no current model exists afterwards.
\<close>

theorem total_load_failure_scroll_safe:
  assumes "list_all failureOrScroll es"
    and "list_all ownKeysOnly (scrolledPages es)"
  shows "(list_all (\<lambda>p. 2 \<le> length p) (scrolledPages es) \<longrightarrow>
            list_all returned (trace init es) \<and> objects (exec init es) = [] \<and>
            models (exec init es) = Map.empty \<and> currentModel (exec init es) = None) \<and>
         (sol \<or> list_all (\<lambda>p. 2 \<le> length p) (scrolledPages es) \<longrightarrow>
            list_all returned (trace_part000 sol (init_part000 sol) es) \<and>
            objects (exec_part000 sol (init_part000 sol) es) = [] \<and>
            models (exec_part000 sol (init_part000 sol) es) = Map.empty \<and>
            currentModel (exec_part000 sol (init_part000 sol) es) = None)"
proof (intro conjI impI)
  assume "list_all (\<lambda>p. 2 \<le> length p) (scrolledPages es)"
  with assms(2) have "\<forall>p \<in> set (scrolledPages es). ownKeysOnly p \<and> 2 \<le> length p"
    by (simp add: list_all_iff)
  from idle_run [OF init_idle(1) assms(1) this]
  show "list_all returned (trace init es)" "objects (exec init es) = []"
    "models (exec init es) = Map.empty" "currentModel (exec init es) = None"
    by (simp_all add: idle_def)
next
  assume "sol \<or> list_all (\<lambda>p. 2 \<le> length p) (scrolledPages es)"
  with assms(2) have "\<forall>p \<in> set (scrolledPages es). ownKeysOnly p \<and> (sol \<or> 2 \<le> length p)"
    by (auto simp: list_all_iff)
  from idle_run_part000 [OF init_idle(2) assms(1) this]
  show "list_all returned (trace_part000 sol (init_part000 sol) es)"
    "objects (exec_part000 sol (init_part000 sol) es) = []"
    "models (exec_part000 sol (init_part000 sol) es) = Map.empty"
    "currentModel (exec_part000 sol (init_part000 sol) es) = None"
    by (simp_all add: idle_def)
qed

lemma samplePage_ownKeys: "ownKeysOnly samplePage" "length samplePage = 2"
  by (simp_all add: ownKeysOnly_def samplePage_def inheritedNames_def inheritedFunctions_def)

theorem total_load_failure_scroll_safe_witness:
  "list_all failureOrScroll allLoadsFail \<and>
   list_all ownKeysOnly (scrolledPages allLoadsFail) \<and>
   list_all (\<lambda>p. 2 \<le> length p) (scrolledPages allLoadsFail) \<and>
   list_all returned (trace init allLoadsFail) \<and>
   list_all returned (trace_part000 False (init_part000 False) allLoadsFail) \<and>
   objects (exec init allLoadsFail) = [] \<and>
   objects (exec_part000 False (init_part000 False) allLoadsFail) = []"
proof -
  have h: "list_all failureOrScroll allLoadsFail"
    "list_all ownKeysOnly (scrolledPages allLoadsFail)"
    "list_all (\<lambda>p. 2 \<le> length p) (scrolledPages allLoadsFail)"
    by (simp_all add: allLoadsFail_def samplePage_ownKeys)
  from total_load_failure_scroll_safe [OF h(1,2), of False] h show ?thesis by blast
qed

text \<open>
  With every load failed, a scroll event on a page without sections throws at
  \<^verbatim>\<open>sections[1].offsetTop\<close>, and a scroll into a section named \<^verbatim>\<open>constructor\<close> throws at
  \<^verbatim>\<open>updateMatrixWorld()\<close>.
\<close>

theorem total_load_failure_scroll_throws:
  "list_all failureOrScroll (allLoadsFail @ [Scroll [] 0 800]) \<and>
   \<not> list_all returned (trace init (allLoadsFail @ [Scroll [] 0 800])) \<and>
   list_all failureOrScroll (allLoadsFail @ [Scroll constructorPage 1200 800]) \<and>
   \<not> list_all returned (trace init (allLoadsFail @ [Scroll constructorPage 1200 800]))"
proof -
  have h: "list_all failureOrScroll allLoadsFail"
    "\<forall>p \<in> set (scrolledPages allLoadsFail). ownKeysOnly p \<and> 2 \<le> length p"
    by (simp_all add: allLoadsFail_def samplePage_ownKeys)
  from idle_run [OF init_idle(1) h] have i: "idle (exec init allLoadsFail)" by simp
  then have "\<not> returned (handleScroll constructorPage 1200 800 (exec init allLoadsFail))"
    by (simp add: idle_def handleScroll_def constructorPage_def visitSection_def inRange_def
        switchModel_def hideCurrent_def showModel_def modelsGet_def inheritedFunctions_def)
  with h(1) show ?thesis
    by (simp add: trace_append handleScroll_def)
qed

text \<open>
  Also when only the car fails and another model has been shown, a scroll back into the
  first section throws, at \<^verbatim>\<open>models.car.visible = true\<close>.
\<close>

lemma home_zone_throws_without_car:
  "\<not> returned (step (Scroll samplePage 0 800)
      (exec init [LoadError CarLoad, LoadSuccess (OtherLoad ''livingroom'') sampleMesh,
                  SwitchCall (Some ''livingroom'')]))"
proof -
  define v where "v = exec init [LoadError CarLoad,
      LoadSuccess (OtherLoad ''livingroom'') sampleMesh]"
  have f: "models v = [''livingroom'' \<mapsto> 0]" "currentModel v = None"
    by (simp_all add: v_def exec_def init_def loadCarModel_def loader_load_def
        emptyViewer_def carFailed_eq complete_def otherLoaded_def Let_def scene_add_def
        modelPaths_def)
  have "currentModel v \<noteq> Some TrueValue" by (simp add: f)
  note s = switchModel_registered [of v "''livingroom''" 0, OF _ _ this]
  define w where "w = state_of (switchModel (Some ''livingroom'') v)"
  have c: "currentModel w = Some (NodeRef 0)" "models w ''car'' = None"
    using s(2) by (simp_all add: f w_def)
  have "exec init ([LoadError CarLoad, LoadSuccess (OtherLoad ''livingroom'') sampleMesh]
                  @ [SwitchCall (Some ''livingroom'')]) = w"
    unfolding exec_append v_def [symmetric] by (simp add: exec_def w_def)
  then have e: "exec init [LoadError CarLoad,
      LoadSuccess (OtherLoad ''livingroom'') sampleMesh,
      SwitchCall (Some ''livingroom'')] = w"
    by simp
  have "\<not> returned (showCar w)"
    by (simp add: showCar_def c returned_andThen)
  then show ?thesis
    unfolding e by (simp add: handleScroll_def samplePage_def)
qed

section \<open>Loading\<close>

text \<open>
  C5. Neither \<^verbatim>\<open>loadCarModel\<close> nor \<^verbatim>\<open>loadOtherModels\<close> tests whether a key is loading or
  loaded; each call starts its loads. In every run of either file each of the two is
  called at most once, so no request is made twice.
\<close>

theorem each_key_requested_once:
  "distinct (map fst (requested (exec init es))) \<and>
   distinct (map fst (requested (exec_part000 sol (init_part000 sol) es)))"
  using reachable [of es] reachable_part000 [of sol es]
  by (simp add: viewer_inv_def load_ok_def)

text \<open>A second call of \<^verbatim>\<open>loadOtherModels\<close> while the keys are loading loads them again.\<close>

theorem loadOtherModels_reloads:
  "OtherLoad ''livingroom'' \<in> set (pending (loadOtherModels emptyViewer)) \<and>
   map fst (requested (loadOtherModels emptyViewer)) =
     [OtherLoad ''livingroom'', OtherLoad ''bedroom'', OtherLoad ''kitchen''] \<and>
   map fst (requested (loadOtherModels (loadOtherModels emptyViewer))) =
     [OtherLoad ''livingroom'', OtherLoad ''bedroom'', OtherLoad ''kitchen'',
      OtherLoad ''livingroom'', OtherLoad ''bedroom'', OtherLoad ''kitchen'']"
  by (simp add: loadOtherModels_eq emptyViewer_def modelPaths_def)

lemma visitSection_loads [simp]:
  "models (state_of (visitSection y h s v)) = models v"
  "pending (state_of (visitSection y h s v)) = pending v"
  by (simp_all add: visitSection_def)

lemma forEach_indexed_loads:
  "models (state_of (forEach (\<lambda>(index, s) w. if index = 0 then Returned w
                                               else visitSection y h s w) ixs v)) = models v \<and>
   pending (state_of (forEach (\<lambda>(index, s) w. if index = 0 then Returned w
                                                else visitSection y h s w) ixs v)) = pending v"
proof (induction ixs arbitrary: v)
  case Nil
  show ?case by simp
next
  case (Cons x ixs)
  obtain index s where x: "x = (index, s)" by (cases x)
  show ?case
  proof (cases "index = 0")
    case True
    with x Cons.IH [of v] show ?thesis by simp
  next
    case False
    show ?thesis
    proof (cases "returned (visitSection y h s v)")
      case True
      with x False Cons.IH [of "state_of (visitSection y h s v)"] show ?thesis
        by (simp add: state_of_andThen)
    next
      case stop: False
      with x \<open>index \<noteq> 0\<close> show ?thesis by (simp add: state_of_andThen)
    qed
  qed
qed

lemma handleScroll_loads [simp]:
  "models (state_of (handleScroll ss y h v)) = models v"
  "pending (state_of (handleScroll ss y h v)) = pending v"
  using forEach_indexed_loads [of y h "enumerate 0 ss" v]
  by (simp_all add: handleScroll_def)

lemma settled_step: "settled k v \<Longrightarrow> settled k (state_of (step e v))"
proof (cases e)
  case (LoadSuccess r g)
  assume "settled k v"
  then show ?thesis
    using LoadSuccess notin_set_remove1 [of "OtherLoad k" "pending v"]
      notin_set_remove1 [of CarLoad "pending v"]
    by (cases r) (auto simp: settled_def otherLoaded_simps)
next
  case (LoadError r)
  assume "settled k v"
  then show ?thesis
    using LoadError notin_set_remove1 [of "OtherLoad k" "pending v"]
      notin_set_remove1 [of CarLoad "pending v"]
    by (cases r) (auto simp: settled_def otherFailed_def)
qed (simp_all add: settled_def)

lemma settled_exec: "settled k v \<Longrightarrow> settled k (exec v es)"
  by (induction es arbitrary: v) (simp_all add: exec_def settled_step)

lemma failed_key_settled:
  assumes "viewer_inv v" "OtherLoad k \<in> set (pending v)"
  shows "settled k (state_of (step (LoadError (OtherLoad k)) v))"
proof -
  from assms have l: "load_ok v" by (simp add: viewer_inv_def)
  from l assms(2) have "CarLoad \<notin> set (pending v)" "models v k = None" "distinct (pending v)"
    unfolding load_ok_def by auto
  then show ?thesis
    using assms(2) notin_set_remove1 [of CarLoad "pending v"]
    by (auto simp: settled_def otherFailed_def)
qed

text \<open>
  C8. \<^verbatim>\<open>loadOtherModels\<close> starts one load per configured entry. The failure of a load
  returns without an error, registers nothing, and leaves every other pending load
  pending; another pending key that succeeds afterwards is registered. In a run of
  \<^verbatim>\<open>main.js\<close>, a key whose load has failed is not registered at any later time.
\<close>

theorem background_partial_failure:
  "pending (loadOtherModels v) =
     pending v @ [OtherLoad ''livingroom'', OtherLoad ''bedroom'', OtherLoad ''kitchen''] \<and>
   map fst (requested (loadOtherModels v)) =
     map fst (requested v)
       @ [OtherLoad ''livingroom'', OtherLoad ''bedroom'', OtherLoad ''kitchen''] \<and>
   returned (step (LoadError r) v) \<and>
   models (state_of (step (LoadError r) v)) = models v \<and>
   (\<forall>r'. r' \<noteq> r \<longrightarrow> r' \<in> set (pending v) \<longrightarrow>
      r' \<in> set (pending (state_of (step (LoadError r) v)))) \<and>
   (\<forall>k' g. k' \<noteq> k \<longrightarrow> OtherLoad k' \<in> set (pending v) \<longrightarrow>
      models (exec v [LoadError (OtherLoad k), LoadSuccess (OtherLoad k') g]) k'
        = Some (length (objects v))) \<and>
   (OtherLoad k \<in> set (pending (exec init es)) \<longrightarrow>
      (\<forall>es'. models (exec init (es @ LoadError (OtherLoad k) # es')) k = None))"
proof (intro conjI allI impI)
  show "pending (loadOtherModels v) =
     pending v @ [OtherLoad ''livingroom'', OtherLoad ''bedroom'', OtherLoad ''kitchen'']"
    by (simp add: loadOtherModels_eq modelPaths_def)
  show "map fst (requested (loadOtherModels v)) =
     map fst (requested v)
       @ [OtherLoad ''livingroom'', OtherLoad ''bedroom'', OtherLoad ''kitchen'']"
    by (simp add: loadOtherModels_eq modelPaths_def)
  show "returned (step (LoadError r) v)"
    by (cases r) simp_all
  show "models (state_of (step (LoadError r) v)) = models v"
    by (cases r) (simp_all add: carFailed_eq otherFailed_def)
next
  fix r' assume "r' \<noteq> r" "r' \<in> set (pending v)"
  then show "r' \<in> set (pending (state_of (step (LoadError r) v)))"
    by (cases r) (auto simp: carFailed_eq otherFailed_def)
next
  fix k' g assume "k' \<noteq> k" "OtherLoad k' \<in> set (pending v)"
  then show "models (exec v [LoadError (OtherLoad k), LoadSuccess (OtherLoad k') g]) k'
        = Some (length (objects v))"
    by (simp add: exec_def otherFailed_def otherLoaded_simps)
next
  fix es' assume p: "OtherLoad k \<in> set (pending (exec init es))"
  have "settled k (exec (state_of (step (LoadError (OtherLoad k)) (exec init es))) es')"
    by (intro settled_exec failed_key_settled reachable p)
  then show "models (exec init (es @ LoadError (OtherLoad k) # es')) k = None"
    by (simp add: exec_append exec_Cons settled_def)
qed

theorem background_partial_failure_witness:
  "OtherLoad ''kitchen'' \<noteq> OtherLoad ''bedroom'' \<and>
   OtherLoad ''bedroom'' \<in> set (pending carAndLivingroom) \<and>
   OtherLoad ''kitchen'' \<in> set (pending carAndLivingroom) \<and>
   OtherLoad ''kitchen''
     \<in> set (pending (state_of (step (LoadError (OtherLoad ''bedroom'')) carAndLivingroom))) \<and>
   models (exec carAndLivingroom
             [LoadError (OtherLoad ''bedroom''), LoadSuccess (OtherLoad ''kitchen'') sampleMesh])
          ''kitchen'' = Some (length (objects carAndLivingroom)) \<and>
   models (exec init ([LoadSuccess CarLoad sampleMesh,
                       LoadSuccess (OtherLoad ''livingroom'') sampleMesh]
                      @ LoadError (OtherLoad ''bedroom'')
                        # [LoadSuccess (OtherLoad ''bedroom'') sampleMesh,
                           LoadError (OtherLoad ''kitchen'')])) ''bedroom'' = None"
proof -
  have h: "OtherLoad ''kitchen'' \<noteq> OtherLoad ''bedroom''"
    "OtherLoad ''bedroom'' \<in> set (pending carAndLivingroom)"
    "OtherLoad ''kitchen'' \<in> set (pending carAndLivingroom)"
    "''kitchen'' \<noteq> ''bedroom''"
    by (simp_all add: carAndLivingroom_eval)
  from h(2) have p: "OtherLoad ''bedroom'' \<in> set (pending (exec init
      [LoadSuccess CarLoad sampleMesh, LoadSuccess (OtherLoad ''livingroom'') sampleMesh]))"
    by (simp add: carAndLivingroom_def)
  note t = background_partial_failure [of carAndLivingroom "OtherLoad ''bedroom''"
      "''bedroom''"
      "[LoadSuccess CarLoad sampleMesh, LoadSuccess (OtherLoad ''livingroom'') sampleMesh]"]
  from t have c1: "\<forall>r'. r' \<noteq> OtherLoad ''bedroom'' \<longrightarrow> r' \<in> set (pending carAndLivingroom) \<longrightarrow>
      r' \<in> set (pending (state_of (step (LoadError (OtherLoad ''bedroom'')) carAndLivingroom)))"
    by (elim conjE)
  from t have c2: "\<forall>k' g. k' \<noteq> ''bedroom'' \<longrightarrow> OtherLoad k' \<in> set (pending carAndLivingroom) \<longrightarrow>
      models (exec carAndLivingroom [LoadError (OtherLoad ''bedroom''),
        LoadSuccess (OtherLoad k') g]) k' = Some (length (objects carAndLivingroom))"
    by (elim conjE)
  from t have c3: "OtherLoad ''bedroom'' \<in> set (pending (exec init
      [LoadSuccess CarLoad sampleMesh, LoadSuccess (OtherLoad ''livingroom'') sampleMesh])) \<longrightarrow>
      (\<forall>es'. models (exec init ([LoadSuccess CarLoad sampleMesh,
          LoadSuccess (OtherLoad ''livingroom'') sampleMesh]
          @ LoadError (OtherLoad ''bedroom'') # es')) ''bedroom'' = None)"
    by (elim conjE)
  from c1 h(1,3) have r1: "OtherLoad ''kitchen''
     \<in> set (pending (state_of (step (LoadError (OtherLoad ''bedroom'')) carAndLivingroom)))"
    by (elim allE [of _ "OtherLoad ''kitchen''"]) (rule mp, rule mp)
  from c2 h(3,4) have r2: "models (exec carAndLivingroom
             [LoadError (OtherLoad ''bedroom''), LoadSuccess (OtherLoad ''kitchen'') sampleMesh])
          ''kitchen'' = Some (length (objects carAndLivingroom))"
    by (elim allE [of _ "''kitchen''"] allE [of _ sampleMesh]) (rule mp, rule mp)
  from c3 p have "\<forall>es'. models (exec init ([LoadSuccess CarLoad sampleMesh,
          LoadSuccess (OtherLoad ''livingroom'') sampleMesh]
          @ LoadError (OtherLoad ''bedroom'') # es')) ''bedroom'' = None"
    by (rule mp)
  then have r3: "models (exec init ([LoadSuccess CarLoad sampleMesh,
                       LoadSuccess (OtherLoad ''livingroom'') sampleMesh]
                      @ LoadError (OtherLoad ''bedroom'')
                        # [LoadSuccess (OtherLoad ''bedroom'') sampleMesh,
                           LoadError (OtherLoad ''kitchen'')])) ''bedroom'' = None"
    by (rule spec)
  from h(1-3) r1 r2 r3 show ?thesis by (intro conjI)
qed

text \<open>
  The car and the living room load, the bedroom and the kitchen fail: the registry holds
  the car and the living room.
\<close>

lemma bedroom_fails_registry:
  "models (exec carAndLivingroom
             [LoadError (OtherLoad ''bedroom''), LoadError (OtherLoad ''kitchen'')])
     = [''car'' \<mapsto> 0, ''livingroom'' \<mapsto> 1]"
  by (simp add: exec_def carAndLivingroom_eval otherFailed_def)

section \<open>The scroll handlers\<close>






lemma forEach_skip_index:
  "0 < n \<Longrightarrow>
   forEach (\<lambda>(index, s) w. if index = 0 then Returned w else f s w) (enumerate n xs) v
     = forEach f xs v"
proof (induction xs arbitrary: n v)
  case Nil
  show ?case by simp
next
  case (Cons x xs)
  have "forEach (\<lambda>(index, s) w. if index = 0 then Returned w else f s w)
          (enumerate (Suc n) xs) w = forEach f xs w" for w
    by (rule Cons.IH) simp
  with Cons.prems show ?case by (simp add: andThen_state)
qed





section \<open>The active range of a section\<close>

lemma forEach_Nil [simp]: "forEach f [] = Returned"
  by (rule ext) simp






section \<open>The two handlers\<close>

lemma handlers_agree:
  assumes "\<not> (2 \<le> length sections \<and> lowerBound (sections ! 1) h \<le> y \<and>
              inRange (sections ! 0) y h)"
  shows "handleScroll sections y h v = handleScroll_part000 False sections y h v"
proof (cases sections)
  case Nil
  then show ?thesis by (simp add: handleScroll_def handleScroll_part000_def)
next
  case (Cons s0 rest)
  have skip: "forEach (\<lambda>(index, s) w. if index = 0 then Returned w
                                        else visitSection y h s w)
                (enumerate 0 sections) v = forEach (visitSection y h) rest v"
    unfolding Cons by (simp add: forEach_skip_index)
  show ?thesis
  proof (cases "2 \<le> length sections \<and> lowerBound (sections ! 1) h \<le> y")
    case True
    with assms have "\<not> inRange s0 y h" using Cons by simp
    then have "forEach (visitSection y h) sections v = forEach (visitSection y h) rest v"
      unfolding Cons by (simp add: visitSection_def)
    with skip show ?thesis by (simp add: handleScroll_def handleScroll_part000_def)
  next
    case False
    then show ?thesis
      by (auto simp: handleScroll_def handleScroll_part000_def lowerBound_def)
  qed
qed

text \<open>
  C6. On the main page the handlers of the two files give the same outcome from the same
  state unless the first section is active at a scroll position at or above the second
  section's lower bound; in particular they agree on every page whose first section ends
  where the second begins or before.
\<close>

theorem scroll_handlers_agree:
  "(\<not> (2 \<le> length sections \<and> lowerBound (sections ! 1) h \<le> y \<and>
        inRange (sections ! 0) y h) \<longrightarrow>
      handleScroll sections y h v = handleScroll_part000 False sections y h v) \<and>
   (2 \<le> length sections \<and> upperBound (sections ! 0) h \<le> lowerBound (sections ! 1) h \<longrightarrow>
      handleScroll sections y h v = handleScroll_part000 False sections y h v)"
proof (intro conjI impI)
  assume "\<not> (2 \<le> length sections \<and> lowerBound (sections ! 1) h \<le> y \<and>
              inRange (sections ! 0) y h)"
  then show "handleScroll sections y h v = handleScroll_part000 False sections y h v"
    by (rule handlers_agree)
next
  assume "2 \<le> length sections \<and> upperBound (sections ! 0) h \<le> lowerBound (sections ! 1) h"
  then have "\<not> (2 \<le> length sections \<and> lowerBound (sections ! 1) h \<le> y \<and>
              inRange (sections ! 0) y h)"
    by (auto simp: inRange_def upperBound_def lowerBound_def)
  then show "handleScroll sections y h v = handleScroll_part000 False sections y h v"
    by (rule handlers_agree)
qed

theorem scroll_handlers_agree_witness:
  "\<not> inRange (samplePage ! 0) 1200 800 \<and>
   2 \<le> length samplePage \<and>
   upperBound (samplePage ! 0) 800 \<le> lowerBound (samplePage ! 1) 800 \<and>
   handleScroll samplePage 1200 800 carAndLivingroom =
     handleScroll_part000 False samplePage 1200 800 carAndLivingroom"
proof -
  have h: "\<not> inRange (samplePage ! 0) 1200 800" "2 \<le> length samplePage"
    "upperBound (samplePage ! 0) 800 \<le> lowerBound (samplePage ! 1) 800"
    by (simp_all add: samplePage_def inRange_def upperBound_def lowerBound_def)
  with scroll_handlers_agree [where sections = samplePage and h = 800 and y = 1200
      and v = carAndLivingroom] show ?thesis
    by simp
qed

text \<open>
  On a page whose second section starts inside the first, with the living room loaded
  and the bedroom not, the two handlers end with different current models.
\<close>

theorem scroll_handlers_differ:
  "currentModel (state_of (handleScroll overlapPage 300 800 carAndLivingroom))
     = Some (NodeRef 0) \<and>
   currentModel (state_of (handleScroll_part000 False overlapPage 300 800 carAndLivingroom))
     = Some (NodeRef 1) \<and>
   lightTarget (state_of (handleScroll overlapPage 300 800 carAndLivingroom)) = None \<and>
   lightTarget (state_of (handleScroll_part000 False overlapPage 300 800 carAndLivingroom))
     = Some (NodeRef 1) \<and>
   handleScroll overlapPage 300 800 carAndLivingroom
     \<noteq> handleScroll_part000 False overlapPage 300 800 carAndLivingroom"
proof -
  have g: "modelsGet w ''bedroom'' = None" if "models w = models carAndLivingroom" for w
    using that by (simp add: modelsGet_own inheritedNames_def inheritedFunctions_def
        carAndLivingroom_eval)
  have hb: "switchModel (Some ''bedroom'') w = hideCurrent w"
    if "models w = models carAndLivingroom" for w
    using switchModel_not_found [of "Some ''bedroom''" w] g [of "state_of (hideCurrent w)"] that
    by simp
  have m: "handleScroll overlapPage 300 800 carAndLivingroom = hideCurrent carAndLivingroom"
    by (simp add: handleScroll_def overlapPage_def visitSection_def inRange_def hb)
  have a: "currentModel (state_of (handleScroll overlapPage 300 800 carAndLivingroom))
      = Some (NodeRef 0)"
    "lightTarget (state_of (handleScroll overlapPage 300 800 carAndLivingroom)) = None"
    unfolding m by (simp_all add: carAndLivingroom_eval)
  define w where "w = state_of (switchModel (Some ''livingroom'') carAndLivingroom)"
  have c: "currentModel carAndLivingroom \<noteq> Some TrueValue"
    "models carAndLivingroom ''livingroom'' = Some 1"
    by (simp_all add: carAndLivingroom_eval)
  note e = switchModel_registered [OF c(2) _ c(1), folded w_def]
  have w: "returned (switchModel (Some ''livingroom'') carAndLivingroom)"
    "currentModel w = Some (NodeRef 1)" "lightTarget w = Some (NodeRef 1)"
    "models w = models carAndLivingroom"
    using e(1-3) by (simp_all add: w_def)
  have sw: "switchModel (Some ''livingroom'') carAndLivingroom = Returned w"
    using w(1) unfolding w_def
    by (cases "switchModel (Some ''livingroom'') carAndLivingroom") simp_all
  have p: "handleScroll_part000 False overlapPage 300 800 carAndLivingroom = hideCurrent w"
    by (simp add: handleScroll_part000_def overlapPage_def visitSection_def inRange_def
        sw hb [OF w(4)])
  have b: "currentModel (state_of (handleScroll_part000 False overlapPage 300 800
              carAndLivingroom)) = Some (NodeRef 1)"
    "lightTarget (state_of (handleScroll_part000 False overlapPage 300 800
              carAndLivingroom)) = Some (NodeRef 1)"
    unfolding p by (simp_all add: w)
  from a(1) b(1) have "handleScroll overlapPage 300 800 carAndLivingroom
     \<noteq> handleScroll_part000 False overlapPage 300 800 carAndLivingroom"
    by auto
  with a b show ?thesis by simp
qed

end
